theory Spec2Isabelle
  imports Complex_Main "HOL-Library.Word"
begin

section \<open>bashful: task model, runner, scheduler, ETA and line rendering (task.go)\<close>

text \<open>
  A shallow embedding of \<^verbatim>\<open>task.go\<close>. Go strings and byte slices are \<open>string\<close>
  (lists of 8-bit characters), Go's \<open>int\<close> is \<open>int\<close>, the \<open>uint\<close> returned by
  \<^verbatim>\<open>terminal.Width()\<close> is a 64-bit word. A run-time panic of the Go program is a value
  of \<open>go_panic\<close> on the left of a sum.
\<close>

datatype go_panic = SliceBoundsOutOfRange | NilPointerDereference | IndexOutOfRange

subsection \<open>The stream splitter\<close>

abbreviation LF :: char where "LF \<equiv> CHR 0x0A"
abbreviation CR :: char where "CR \<equiv> CHR 0x0D"

text \<open>
  \<^verbatim>\<open>strings.Index(s, c)\<close> for a one-byte separator: the index of the first occurrence,
  or \<open>-1\<close> when there is none.
\<close>

fun strings_Index :: "string \<Rightarrow> char \<Rightarrow> int" where
  "strings_Index [] c = -1"
| "strings_Index (x # xs) c =
     (if x = c then 0
      else (let i = strings_Index xs c in if i < 0 then -1 else i + 1))"

text \<open>
  \<^verbatim>\<open>variableSplitFunc(data, atEOF)\<close> returns \<open>(advance, token, err)\<close>; \<open>err\<close> is always
  nil and is left out. A nil token is \<open>None\<close>, a token that is an empty slice is
  \<open>Some []\<close>. The terminal width is the \<open>uint\<close> read from the terminal;
  \<^verbatim>\<open>int(terminalWidth*2)\<close> is the wrapped product read as a signed integer, and slicing
  with a negative bound panics.
\<close>

definition variableSplitFunc ::
  "64 word \<Rightarrow> string \<Rightarrow> bool \<Rightarrow> go_panic + (int \<times> string option)" where
  "variableSplitFunc terminalWidth data atEOF =
     (if atEOF \<and> length data = 0 then Inr (0, None)
      else if strings_Index data LF \<ge> 0
        then Inr (strings_Index data LF + 1, Some (take (nat (strings_Index data LF)) data))
      else if strings_Index data CR \<ge> 0
        then Inr (strings_Index data CR + 1, Some (take (nat (strings_Index data CR)) data))
      else if int (length data) > sint (terminalWidth * 2)
        then (if sint (terminalWidth * 2) < 0 then Inl SliceBoundsOutOfRange
              else Inr (sint (terminalWidth * 2),
                        Some (take (nat (sint (terminalWidth * 2))) data)))
      else if atEOF then Inr (int (length data), Some data)
      else Inr (0, None))"

subsection \<open>The data model\<close>

datatype CommandStatus = StatusRunning | StatusPending | StatusSuccess | StatusError

text \<open>The three compiled line templates are global values; a task holds a reference to one.\<close>

datatype LineTemplate = lineDefaultTemplate | lineParallelTemplate | lineLastParallelTemplate

record LineInfo =
  Status :: string
  Title :: string
  Msg :: string
  Spinner :: string
  Eta :: string
  Split :: string

record TaskDisplay =
  Template :: LineTemplate
  Index :: int
  Values :: LineInfo

text \<open>
  \<open>Cmd\<close> is the argument vector handed to \<^verbatim>\<open>exec.Command\<close>. Times are nanoseconds;
  \<open>EstimatedRuntime\<close> is a \<^verbatim>\<open>time.Duration\<close>, with \<open>-1\<close> for an unknown estimate.
\<close>

record TaskCommand =
  Cmd :: "string list"
  StartTime :: int
  StopTime :: int
  EstimatedRuntime :: int
  Started :: bool
  Complete :: bool
  ReturnCode :: int

text \<open>
  \<^verbatim>\<open>Task\<close> is a recursive struct in Go. \<^verbatim>\<open>Tasks\<close>, \<^verbatim>\<open>Process\<close> and \<^verbatim>\<open>EstimatedRuntime\<close>
  look at a task and at its \<^verbatim>\<open>ParallelTasks\<close>, never below: the model has two levels, a
  \<open>Task\<close> without sub-tasks for a child and a \<open>Group\<close> that extends it by the list of
  children for a top-level task. The log channel and log file of a task are left out.
\<close>

record Task =
  Name :: string
  CmdString :: string
  Display :: TaskDisplay
  Command :: TaskCommand
  StopOnFailure :: bool
  ShowTaskOutput :: bool
  IgnoreFailure :: bool
  ForEach :: "string list"
  ErrorBuffer :: string

record Group = Task +
  ParallelTasks :: "Task list"

text \<open>A record on the result channel; \<open>irTask\<close> is the index of the task it points to.\<close>

record CmdIR =
  irTask :: nat
  irStatus :: CommandStatus
  irStdout :: string
  irStderr :: string
  irComplete :: bool
  irReturnCode :: int

record Options =
  MaxParallelCmds :: int
  ReplicaReplaceString :: string
  Vintage :: bool

subsection \<open>The subprocess runner\<close>

text \<open>
  What the operating system and \<^verbatim>\<open>os/exec\<close> hand to \<^verbatim>\<open>run\<close>: the cleaned tokens that
  the select loop receives from the two reader goroutines, in the order it receives them,
  until both channels are closed; the error returned by \<^verbatim>\<open>Cmd.Wait()\<close>; and
  \<^verbatim>\<open>Cmd.ProcessState\<close> after \<^verbatim>\<open>Wait\<close>, \<open>None\<close> for the nil pointer. A run whose subprocess
  never closes its pipes is not described by such a value.
\<close>

datatype WaitStatus = WaitStatus (ExitStatus: int)

datatype pipe_msg = stdoutMsg string | stderrMsg string

datatype exec_error = NoError | ExitError WaitStatus | OtherError

record subprocess =
  received :: "pipe_msg list"
  waitErr :: exec_error
  ProcessState :: "WaitStatus option"

text \<open>
  The visible effects of the goroutine, in order: a record sent on the result channel, the
  assignment \<^verbatim>\<open>exitSignaled = true\<close>, or a panic (which ends the program).
\<close>

datatype effect = Send CmdIR | SetExitSignaled | Panic go_panic

definition lineRecord :: "nat \<Rightarrow> pipe_msg \<Rightarrow> CmdIR" where
  "lineRecord self m =
     (case m of
        stdoutMsg s \<Rightarrow>
          \<lparr>irTask = self, irStatus = StatusRunning, irStdout = s, irStderr = [],
           irComplete = False, irReturnCode = -1\<rparr>
      | stderrMsg s \<Rightarrow>
          \<lparr>irTask = self, irStatus = StatusRunning, irStdout = [], irStderr = s,
           irComplete = False, irReturnCode = -1\<rparr>)"

text \<open>
  \<^verbatim>\<open>run\<close>, for the task with index \<open>self\<close>. The errors of \<^verbatim>\<open>StdoutPipe\<close>, \<^verbatim>\<open>StderrPipe\<close>
  and \<^verbatim>\<open>Start\<close> are dropped by the code. After the select loop the wait status is taken
  from the \<^verbatim>\<open>*exec.ExitError\<close> when \<^verbatim>\<open>Wait\<close> returned one, and otherwise read through
  \<^verbatim>\<open>Cmd.ProcessState\<close>, which dereferences that pointer.
\<close>

definition run :: "nat \<Rightarrow> 'a Task_scheme \<Rightarrow> subprocess \<Rightarrow> effect list" where
  "run self task p =
     Send \<lparr>irTask = self, irStatus = StatusRunning, irStdout = [], irStderr = [],
           irComplete = False, irReturnCode = -1\<rparr>
     # map (\<lambda>m. Send (lineRecord self m)) (received p)
     @ (case (case waitErr p of ExitError ws \<Rightarrow> Some ws | _ \<Rightarrow> ProcessState p) of
          None \<Rightarrow> [Panic NilPointerDereference]
        | Some waitStatus \<Rightarrow>
            (let returnCode = ExitStatus waitStatus in
             if returnCode = 0 \<or> IgnoreFailure task
             then [Send \<lparr>irTask = self, irStatus = StatusSuccess, irStdout = [], irStderr = [],
                         irComplete = True, irReturnCode = returnCode\<rparr>]
             else Send \<lparr>irTask = self, irStatus = StatusError, irStdout = [], irStderr = [],
                         irComplete = True, irReturnCode = returnCode\<rparr>
                  # (if StopOnFailure task then [SetExitSignaled] else [])))"

text \<open>
  Names for the parts of \<open>run\<close> that the lemmas speak of: the wait status it reads, the
  first record it sends and the terminal record it sends for a wait status.
\<close>

definition waitStatusOf :: "subprocess \<Rightarrow> WaitStatus option" where
  "waitStatusOf p = (case waitErr p of ExitError ws \<Rightarrow> Some ws | _ \<Rightarrow> ProcessState p)"

definition firstRecord :: "nat \<Rightarrow> CmdIR" where
  "firstRecord self = \<lparr>irTask = self, irStatus = StatusRunning, irStdout = [], irStderr = [],
           irComplete = False, irReturnCode = -1\<rparr>"

definition terminalRecord :: "nat \<Rightarrow> 'a Task_scheme \<Rightarrow> WaitStatus \<Rightarrow> CmdIR" where
  "terminalRecord self task ws =
     \<lparr>irTask = self,
      irStatus = (if ExitStatus ws = 0 \<or> IgnoreFailure task then StatusSuccess else StatusError),
      irStdout = [], irStderr = [], irComplete = True, irReturnCode = ExitStatus ws\<rparr>"

text \<open>The records a goroutine puts on the result channel, in order.\<close>

fun sent :: "effect list \<Rightarrow> CmdIR list" where
  "sent [] = []"
| "sent (Send r # es) = r # sent es"
| "sent (_ # es) = sent es"

text \<open>
  \<^verbatim>\<open>os/exec\<close> when the subprocess could not be created: \<^verbatim>\<open>Start\<close> closes both pipes, so
  the readers deliver nothing; \<^verbatim>\<open>Wait\<close> returns the plain error \<^verbatim>\<open>exec: not started\<close>;
  \<^verbatim>\<open>ProcessState\<close> is still nil.
\<close>

definition spawnFailed :: subprocess where
  "spawnFailed = \<lparr>received = [], waitErr = OtherError, ProcessState = None\<rparr>"

subsection \<open>The group scheduler\<close>

definition Tasks :: "Group \<Rightarrow> Task list" where
  "Tasks task = (if CmdString task \<noteq> [] then [Task.truncate task] else ParallelTasks task)"

text \<open>
  The world around one \<^verbatim>\<open>Process\<close> call: the subprocess of each task (by index) and the
  two clock readings its goroutine takes.
\<close>

record environment =
  procs :: "nat \<Rightarrow> subprocess"
  startedAt :: "nat \<Rightarrow> int"
  stoppedAt :: "nat \<Rightarrow> int"

text \<open>
  The state of a \<^verbatim>\<open>Process\<close> call. \<open>tasks\<close> are the tasks the pointers of
  \<^verbatim>\<open>task.Tasks()\<close> refer to; \<open>failedTasks\<close> holds indices into it. \<open>runners\<close> gives, for
  each task, the effects its goroutine has still to perform (empty before it is launched
  and after it has ended). \<open>completedTasks\<close>, \<open>commandTimeCache\<close> and \<open>exitSignaled\<close> are
  the globals of the program. \<open>halted\<close> records a panic of a goroutine. Terminal output,
  logging, the spinner ticks and the \<^verbatim>\<open>Display.Values\<close> of the tasks are not modelled.
\<close>

record sched =
  tasks :: "Task list"
  runners :: "effect list list"
  runningCmds :: int
  lastStartedTask :: nat
  groupSuccess :: CommandStatus
  failedTasks :: "nat list"
  completedTasks :: int
  commandTimeCache :: "string \<rightharpoonup> int"
  exitSignaled :: bool
  halted :: "go_panic option"

text \<open>
  \<^verbatim>\<open>go tasks[i].run(resultChan, &waiter)\<close> followed by \<^verbatim>\<open>tasks[i].Command.Started = true\<close>;
  the goroutine stamps \<^verbatim>\<open>StartTime\<close> as its first statement.
\<close>

definition launch :: "environment \<Rightarrow> nat \<Rightarrow> sched \<Rightarrow> sched" where
  "launch env i st =
     st\<lparr>runners := (runners st)[i := run i (tasks st ! i) (procs env i)],
        tasks := (tasks st)[i := (tasks st ! i)
                   \<lparr>Command := (Command (tasks st ! i))
                      \<lparr>Started := True, StartTime := startedAt env i\<rparr>\<rparr>]\<rparr>"

text \<open>The first loop of \<^verbatim>\<open>Process\<close>: launch tasks while fewer than \<^verbatim>\<open>MaxParallelCmds\<close> are started.\<close>

function startInitial :: "Options \<Rightarrow> environment \<Rightarrow> sched \<Rightarrow> sched" where
  "startInitial opts env st =
     (if int (lastStartedTask st) < MaxParallelCmds opts \<and> lastStartedTask st < length (tasks st)
      then startInitial opts env
             ((launch env (lastStartedTask st) st)
                \<lparr>runningCmds := runningCmds st + 1, lastStartedTask := lastStartedTask st + 1\<rparr>)
      else st)"
  by pat_completeness auto
termination
  by (relation "measure (\<lambda>(opts, env, st). length (tasks st) - lastStartedTask st)")
     (auto simp: launch_def)

declare startInitial.simps [simp del]

text \<open>
  The body of \<^verbatim>\<open>case msgObj := <-resultChan\<close>. The goroutine stamped \<^verbatim>\<open>StopTime\<close> before
  it sent a terminal record. The test of \<^verbatim>\<open>exitSignaled\<close> at the end of the case runs
  \<^verbatim>\<open>break\<close>, which in Go leaves the enclosing \<^verbatim>\<open>select\<close>, not the \<^verbatim>\<open>for\<close> loop: it
  changes nothing and has no counterpart here.
\<close>

definition handleResult :: "environment \<Rightarrow> CmdIR \<Rightarrow> sched \<Rightarrow> sched" where
  "handleResult env msgObj st =
     (let i = irTask msgObj;
          st1 =
            (if irComplete msgObj then
               (let eventTask = tasks st ! i;
                    cmd = (Command eventTask)
                            \<lparr>StopTime := stoppedAt env i, Complete := True,
                             ReturnCode := irReturnCode msgObj\<rparr>;
                    sA = st\<lparr>completedTasks := completedTasks st + 1,
                           tasks := (tasks st)[i := eventTask\<lparr>Command := cmd\<rparr>],
                           commandTimeCache := (commandTimeCache st)
                             (CmdString eventTask \<mapsto> StopTime cmd - StartTime cmd),
                           runningCmds := runningCmds st - 1\<rparr>;
                    sB = (if lastStartedTask sA < length (tasks sA)
                          then (launch env (lastStartedTask sA) sA)
                                  \<lparr>runningCmds := runningCmds sA + 1,
                                   lastStartedTask := lastStartedTask sA + 1\<rparr>
                          else sA)
                in if irStatus msgObj = StatusError
                   then sB\<lparr>groupSuccess := StatusError, failedTasks := failedTasks sB @ [i]\<rparr>
                   else sB)
             else st)
      in if irStderr msgObj \<noteq> []
         then st1\<lparr>tasks := (tasks st1)[i := (tasks st1 ! i)
                    \<lparr>ErrorBuffer := ErrorBuffer (tasks st1 ! i) @ irStderr msgObj @ [LF]\<rparr>]\<rparr>
         else st1)"

text \<open>
  One step of the running program: the goroutine of task \<open>i\<close> performs its next effect.
  A record it sends is received and handled by the scheduler loop, which runs while
  \<^verbatim>\<open>runningCmds > 0\<close>. The result channel is first-in first-out and is read by the
  scheduler alone, so the scheduler sees the records in the order they are sent.
\<close>

definition step :: "environment \<Rightarrow> nat \<Rightarrow> sched \<Rightarrow> sched" where
  "step env i st =
     (if halted st \<noteq> None \<or> length (runners st) \<le> i then st
      else (case runners st ! i of
              [] \<Rightarrow> st
            | Send msgObj # es \<Rightarrow>
                (if runningCmds st > 0
                 then handleResult env msgObj (st\<lparr>runners := (runners st)[i := es]\<rparr>)
                 else st)
            | SetExitSignaled # es \<Rightarrow>
                st\<lparr>runners := (runners st)[i := es], exitSignaled := True\<rparr>
            | Panic p # es \<Rightarrow> st\<lparr>halted := Some p\<rparr>))"

text \<open>A schedule names the goroutine that moves next; \<open>steps\<close> runs a whole schedule.\<close>

fun steps :: "environment \<Rightarrow> sched \<Rightarrow> nat list \<Rightarrow> sched" where
  "steps env st [] = st"
| "steps env st (i # schedule) = steps env (step env i st) schedule"

text \<open>
  \<^verbatim>\<open>Process\<close>, run along a schedule, from the values \<open>ct\<close>, \<open>cache\<close> and \<open>ex\<close> of the three
  globals. Outside vintage mode every task's \<^verbatim>\<open>Started\<close> is reset first. The call has
  returned once \<^verbatim>\<open>runningCmds\<close> is no longer positive; its result is \<open>failedTasks\<close>.
\<close>

definition initialSched :: "Options \<Rightarrow> Group \<Rightarrow> int \<Rightarrow> (string \<rightharpoonup> int) \<Rightarrow> bool \<Rightarrow> sched" where
  "initialSched opts task ct cache ex =
     \<lparr>tasks = (if \<not> Vintage opts
               then map (\<lambda>t. t\<lparr>Command := (Command t)\<lparr>Started := False\<rparr>\<rparr>) (Tasks task)
               else Tasks task),
      runners = replicate (length (Tasks task)) [],
      runningCmds = 0, lastStartedTask = 0, groupSuccess = StatusSuccess, failedTasks = [],
      completedTasks = ct, commandTimeCache = cache, exitSignaled = ex, halted = None\<rparr>"

definition Process ::
  "Options \<Rightarrow> environment \<Rightarrow> Group \<Rightarrow> int \<Rightarrow> (string \<rightharpoonup> int) \<Rightarrow> bool \<Rightarrow> nat list \<Rightarrow> sched" where
  "Process opts env task ct cache ex schedule =
     steps env (startInitial opts env (initialSched opts task ct cache ex)) schedule"

definition returned :: "sched \<Rightarrow> bool" where
  "returned st \<longleftrightarrow> runningCmds st \<le> 0 \<and> halted st = None"

text \<open>The number of tasks that are started and not complete.\<close>

definition inFlight :: "sched \<Rightarrow> nat" where
  "inFlight st = length (filter (\<lambda>t. Started (Command t) \<and> \<not> Complete (Command t)) (tasks st))"

text \<open>
  A group of three children \<open>true\<close>, \<open>false\<close> (stop on failure) and \<open>true\<close>; none of
  them prints anything, and they exit with 0, 1 and 0.
\<close>

definition leaf :: "string \<Rightarrow> bool \<Rightarrow> bool \<Rightarrow> Task" where
  "leaf c stop ignore =
     \<lparr>Name = c, CmdString = c,
      Display = \<lparr>Template = lineParallelTemplate, Index = 0,
                 Values = \<lparr>Status = [], Title = [], Msg = [], Spinner = [], Eta = [], Split = []\<rparr>\<rparr>,
      Command = \<lparr>Cmd = [c], StartTime = 0, StopTime = 0, EstimatedRuntime = -1,
                 Started = False, Complete = False, ReturnCode = -1\<rparr>,
      StopOnFailure = stop, ShowTaskOutput = False, IgnoreFailure = ignore, ForEach = [],
      ErrorBuffer = []\<rparr>"

definition groupOf :: "Task list \<Rightarrow> Group" where
  "groupOf children = Task.extend (leaf [] False False) (Group.fields children)"

definition exits :: "int \<Rightarrow> subprocess" where
  "exits rc =
     \<lparr>received = [],
      waitErr = (if rc = 0 then NoError else ExitError (WaitStatus rc)),
      ProcessState = Some (WaitStatus rc)\<rparr>"

definition envS3 :: environment where
  "envS3 = \<lparr>procs = (\<lambda>i. if i = 1 then exits 1 else exits 0),
            startedAt = (\<lambda>i. 0), stoppedAt = (\<lambda>i. 1)\<rparr>"

definition groupS3 :: Group where
  "groupS3 = groupOf [leaf ''true'' False False, leaf ''false'' True False, leaf ''true'' False False]"

abbreviation isStarted :: "Task \<Rightarrow> bool" where
  "isStarted t \<equiv> Started (Command t)"

abbreviation isComplete :: "Task \<Rightarrow> bool" where
  "isComplete t \<equiv> Complete (Command t)"

text \<open>
  The invariant of the scheduler: the started tasks are those below \<open>lastStartedTask\<close>;
  a goroutine that was not launched has nothing to do; each goroutine has at most one
  terminal record still to send, tagged with its own index, and none once its task is
  complete; \<open>runningCmds\<close> counts the tasks in flight and stays within the bound.
\<close>

definition schedInv :: "Options \<Rightarrow> sched \<Rightarrow> bool" where
  "schedInv opts st \<longleftrightarrow>
     length (runners st) = length (tasks st) \<and> lastStartedTask st \<le> length (tasks st) \<and>
     (\<forall>k < length (tasks st).
        (isStarted (tasks st ! k) \<longleftrightarrow> k < lastStartedTask st) \<and>
        (isComplete (tasks st ! k) \<longrightarrow>
           k < lastStartedTask st \<and> filter irComplete (sent (runners st ! k)) = []) \<and>
        length (filter irComplete (sent (runners st ! k))) \<le> 1 \<and>
        (\<forall>r \<in> set (sent (runners st ! k)). irTask r = k) \<and>
        (lastStartedTask st \<le> k \<longrightarrow> runners st ! k = [])) \<and>
     runningCmds st = int (inFlight st) \<and> runningCmds st \<le> MaxParallelCmds opts"

definition optionsS3 :: Options where
  "optionsS3 = \<lparr>MaxParallelCmds = 1, ReplicaReplaceString = ''$V'', Vintage = False\<rparr>"

subsection \<open>Inflation\<close>

text \<open>
  \<^verbatim>\<open>strings.Replace(s, old, new, -1)\<close>: every non-overlapping occurrence of \<open>old\<close>, from
  the left, is replaced by \<open>new\<close>. For an empty \<open>old\<close> Go puts \<open>new\<close> in front of every
  UTF-8 sequence and at the end; the model does so in front of every byte, which is the
  same on ASCII text.
\<close>

function strings_Replace :: "string \<Rightarrow> string \<Rightarrow> string \<Rightarrow> string" where
  "strings_Replace s old new =
     (if old = [] then new @ concat (map (\<lambda>c. c # new) s)
      else if s = [] then []
      else if take (length old) s = old
        then new @ strings_Replace (drop (length old) s) old new
      else hd s # strings_Replace (tl s) old new)"
  by pat_completeness auto
termination
  by (relation "measure (\<lambda>(s, old, new). length s)") auto

declare strings_Replace.simps [simp del]

text \<open>\<^verbatim>\<open>strings.Split(s, sep)\<close> for a one-byte separator: one more part than separators.\<close>

fun strings_Split :: "string \<Rightarrow> char \<Rightarrow> string list" where
  "strings_Split [] sep = [[]]"
| "strings_Split (c # cs) sep =
     (if c = sep then [] # strings_Split cs sep
      else (case strings_Split cs sep of
              [] \<Rightarrow> [[c]]
            | w # ws \<Rightarrow> (c # w) # ws))"

text \<open>
  \<^verbatim>\<open>inflate\<close>. The Go method returns nothing; the only statement of it that can panic is
  the indexing \<^verbatim>\<open>command[0]\<close>. \<^verbatim>\<open>exec.Command\<close> builds the command from the argument
  vector and reports no error.
\<close>

definition inflate ::
  "Options \<Rightarrow> (string \<rightharpoonup> int) \<Rightarrow> int \<Rightarrow> string \<Rightarrow> 'a Task_scheme \<Rightarrow> go_panic + 'a Task_scheme" where
  "inflate opts cache displayIdx replicaValue task =
     (let name = Name task;
          cmdString = (if replicaValue \<noteq> []
                       then strings_Replace (CmdString task) (ReplicaReplaceString opts) replicaValue
                       else CmdString task);
          eta = (case cache cmdString of Some eta \<Rightarrow> eta | None \<Rightarrow> -1);
          command = strings_Split cmdString (CHR '' '')
      in (case command of
            [] \<Rightarrow> Inl IndexOutOfRange
          | c0 # args \<Rightarrow>
              Inr (task
                \<lparr>CmdString := cmdString,
                 Command := (Command task)
                    \<lparr>EstimatedRuntime := eta, Cmd := c0 # args, ReturnCode := -1\<rparr>,
                 Display := (Display task)\<lparr>Template := lineDefaultTemplate, Index := displayIdx\<rparr>,
                 ErrorBuffer := [],
                 Name := (if name = [] then cmdString
                          else if replicaValue \<noteq> []
                            then strings_Replace name (ReplicaReplaceString opts) replicaValue
                          else name)\<rparr>)))"

text \<open>
  \<^verbatim>\<open>Create\<close> on a child, which has no sub-tasks: \<^verbatim>\<open>inflate\<close>, then the counter
  \<^verbatim>\<open>totalTasks\<close>; the loop over its sub-tasks does nothing.
\<close>

definition CreateChild ::
  "Options \<Rightarrow> (string \<rightharpoonup> int) \<Rightarrow> int \<Rightarrow> string \<Rightarrow> Task \<Rightarrow> int \<Rightarrow> go_panic + (Task \<times> int)" where
  "CreateChild opts cache displayStartIdx replicaValue task totalTasks =
     (case inflate opts cache displayStartIdx replicaValue task of
        Inl p \<Rightarrow> Inl p
      | Inr t \<Rightarrow> Inr (t, if CmdString t \<noteq> [] then totalTasks + 1 else totalTasks))"

definition withTemplate :: "bool \<Rightarrow> Task \<Rightarrow> Task" where
  "withTemplate isLast t =
     t\<lparr>Display := (Display t)
          \<lparr>Template := (if isLast then lineLastParallelTemplate else lineParallelTemplate)\<rparr>\<rparr>"

text \<open>
  The loop over \<^verbatim>\<open>subTask.ForEach\<close>, from replica index \<open>i\<close> on. \<open>subTask\<close> is the child
  as the previous iteration left it: the loop works on the one child in place, resets its
  name and command and appends a copy of it to \<^verbatim>\<open>finalTasks\<close>. \<open>n\<close> is the length of the
  whole \<^verbatim>\<open>ForEach\<close> list.
\<close>

fun forEachLoop ::
  "Options \<Rightarrow> (string \<rightharpoonup> int) \<Rightarrow> string \<Rightarrow> string \<Rightarrow> nat \<Rightarrow> nat \<Rightarrow> string list \<Rightarrow> Task \<Rightarrow> int
     \<Rightarrow> go_panic + (Task list \<times> int)" where
  "forEachLoop opts cache subTaskName subTaskCmdString n i [] subTask totalTasks =
     Inr ([], totalTasks)"
| "forEachLoop opts cache subTaskName subTaskCmdString n i (subReplicaValue # vs) subTask totalTasks =
     (case CreateChild opts cache (int i) subReplicaValue
             (subTask\<lparr>Name := subTaskName, CmdString := subTaskCmdString\<rparr>) totalTasks of
        Inl p \<Rightarrow> Inl p
      | Inr (t, tot) \<Rightarrow>
          (let t' = withTemplate (int i = int n - 1) t in
           case forEachLoop opts cache subTaskName subTaskCmdString n (i + 1) vs t' tot of
             Inl p \<Rightarrow> Inl p
           | Inr (rest, tot2) \<Rightarrow> Inr (t' # rest, tot2)))"

text \<open>
  The loop over \<^verbatim>\<open>task.ParallelTasks\<close>, from index \<open>subIndex\<close> on; \<open>n\<close> is the length of
  the whole list. It returns what it appends to \<^verbatim>\<open>finalTasks\<close>.
\<close>

fun childrenLoop ::
  "Options \<Rightarrow> (string \<rightharpoonup> int) \<Rightarrow> string \<Rightarrow> nat \<Rightarrow> nat \<Rightarrow> Task list \<Rightarrow> int
     \<Rightarrow> go_panic + (Task list \<times> int)" where
  "childrenLoop opts cache replicaValue n subIndex [] totalTasks = Inr ([], totalTasks)"
| "childrenLoop opts cache replicaValue n subIndex (subTask # subTasks) totalTasks =
     (case (if length (ForEach subTask) > 0
            then forEachLoop opts cache (Name subTask) (CmdString subTask)
                   (length (ForEach subTask)) 0 (ForEach subTask) subTask totalTasks
            else (case inflate opts cache (int subIndex) replicaValue subTask of
                    Inl p \<Rightarrow> Inl p
                  | Inr t \<Rightarrow> Inr ([withTemplate (int subIndex = int n - 1) t], totalTasks + 1))) of
        Inl p \<Rightarrow> Inl p
      | Inr (final, tot) \<Rightarrow>
          (case childrenLoop opts cache replicaValue n (subIndex + 1) subTasks tot of
             Inl p \<Rightarrow> Inl p
           | Inr (rest, tot2) \<Rightarrow> Inr (final @ rest, tot2)))"

text \<open>\<^verbatim>\<open>Create\<close> on a top-level task; the global \<^verbatim>\<open>totalTasks\<close> is passed in and returned.\<close>

definition Create ::
  "Options \<Rightarrow> (string \<rightharpoonup> int) \<Rightarrow> int \<Rightarrow> string \<Rightarrow> Group \<Rightarrow> int \<Rightarrow> go_panic + (Group \<times> int)" where
  "Create opts cache displayStartIdx replicaValue task totalTasks =
     (case inflate opts cache displayStartIdx replicaValue task of
        Inl p \<Rightarrow> Inl p
      | Inr t \<Rightarrow>
          (case childrenLoop opts cache replicaValue (length (ParallelTasks t)) 0 (ParallelTasks t)
                  (if CmdString t \<noteq> [] then totalTasks + 1 else totalTasks) of
             Inl p \<Rightarrow> Inl p
           | Inr (finalTasks, tot) \<Rightarrow> Inr (t\<lparr>ParallelTasks := finalTasks\<rparr>, tot)))"

text \<open>A task as the YAML loader delivers it: name, command and for-each list, nothing else set.\<close>

definition yamlTask :: "string \<Rightarrow> string \<Rightarrow> string list \<Rightarrow> Task" where
  "yamlTask name cmd forEach = (leaf cmd False False)\<lparr>Name := name, ForEach := forEach,
     Command := \<lparr>Cmd = [], StartTime = 0, StopTime = 0, EstimatedRuntime = 0,
                 Started = False, Complete = False, ReturnCode = 0\<rparr>,
     Display := \<lparr>Template = lineDefaultTemplate, Index = 0,
                 Values = \<lparr>Status = [], Title = [], Msg = [], Spinner = [], Eta = [], Split = []\<rparr>\<rparr>\<rparr>"

definition yamlGroup :: "string \<Rightarrow> Task list \<Rightarrow> Group" where
  "yamlGroup name children = Task.extend (yamlTask name [] []) (Group.fields children)"

subsection \<open>Rendering a task line\<close>

text \<open>\<^verbatim>\<open>strconv.Itoa\<close>: the decimal digits of an integer, with a minus sign when negative.\<close>

function digits :: "nat \<Rightarrow> string" where
  "digits n =
     (if n < 10 then [char_of (48 + n)]
      else digits (n div 10) @ [char_of (48 + n mod 10)])"
  by pat_completeness auto
termination
  by (relation "measure id") auto

declare digits.simps [simp del]

definition Itoa :: "int \<Rightarrow> string" where
  "Itoa i = (if i < 0 then CHR ''-'' # digits (nat (- i)) else digits (nat i))"

text \<open>
  \<^verbatim>\<open>String\<close> uses four things that are not in \<^verbatim>\<open>task.go\<close>; they are parameters of the
  model: the execution of a line template on a \<^verbatim>\<open>LineInfo\<close>, \<^verbatim>\<open>visualLength\<close> (a count
  of display cells, so a natural number), \<^verbatim>\<open>trimToVisualLength\<close> and the colour function
  \<^verbatim>\<open>red\<close>.
\<close>

record renderer =
  execute :: "LineTemplate \<Rightarrow> LineInfo \<Rightarrow> string"
  visualLength :: "string \<Rightarrow> nat"
  trimToVisualLength :: "string \<Rightarrow> int \<Rightarrow> string"
  red :: "string \<Rightarrow> string"

text \<open>The first block of \<^verbatim>\<open>String\<close>: what a complete task shows.\<close>

definition completedValues :: "renderer \<Rightarrow> 'a Task_scheme \<Rightarrow> LineInfo" where
  "completedValues r task =
     (if Complete (Command task) then
        (let v = (Values (Display task))\<lparr>Spinner := [], Eta := []\<rparr> in
         if ReturnCode (Command task) \<noteq> 0 \<and> IgnoreFailure task = False
         then v\<lparr>Msg := red r (''Exited with error ('' @ Itoa (ReturnCode (Command task)) @ '')'')\<rparr>
         else v)
      else Values (Display task))"

text \<open>
  \<^verbatim>\<open>String\<close> returns the line and changes the task (its name and its \<^verbatim>\<open>Display.Values\<close>);
  the model returns both. \<^verbatim>\<open>int(terminalWidth)\<close> reads the \<open>uint\<close> as a signed integer.
\<close>

definition String :: "renderer \<Rightarrow> 64 word \<Rightarrow> 'a Task_scheme \<Rightarrow> string \<times> 'a Task_scheme" where
  "String r terminalWidth task =
     (let v1 = completedValues r task;
          name = (if Name task = []
                  then (if length (CmdString task) > 25 then take 22 (CmdString task) @ ''...''
                        else CmdString task)
                  else Name task);
          tmpl = Template (Display task);
          originalMessage = Msg v1;
          v2 = v1\<lparr>Split := [], Msg := []\<rparr>;
          message1 = execute r tmpl v2;
          maxMessageWidth = sint terminalWidth - int (visualLength r message1);
          v3 = v2\<lparr>Msg := originalMessage\<rparr>;
          v4 = (if int (visualLength r (Msg v3)) > maxMessageWidth
                then v3\<lparr>Msg := trimToVisualLength r (Msg v3) (maxMessageWidth - 3) @ ''...''\<rparr>
                else v3);
          message2 = execute r tmpl v4;
          splitWidth = (if sint terminalWidth - int (visualLength r message2) < 0 then 0
                        else sint terminalWidth - int (visualLength r message2));
          v5 = v4\<lparr>Split := replicate (nat splitWidth) (CHR '' '')\<rparr>
      in (execute r tmpl v5,
          task\<lparr>Name := name, Display := (Display task)\<lparr>Values := v5\<rparr>\<rparr>))"

text \<open>
  Modelled from the spec: the line templates, \<^verbatim>\<open>visualLength\<close>, \<^verbatim>\<open>trimToVisualLength\<close>
  and \<^verbatim>\<open>red\<close> are not under src/. The spec gives a template the named fields status,
  title, message, spinner, split and eta, with the split in front of the eta, and tells the
  three variants apart by a leading glyph; lengths and trimming count display cells. This
  renderer is for text without escape sequences, where a cell is a byte.
\<close>

definition plainRenderer :: renderer where
  "plainRenderer =
     \<lparr>execute = (\<lambda>tmpl v.
         (case tmpl of lineDefaultTemplate \<Rightarrow> [] | lineParallelTemplate \<Rightarrow> ''|- ''
          | lineLastParallelTemplate \<Rightarrow> ''`- '')
         @ Status v @ '' '' @ Spinner v @ '' '' @ Title v @ '' '' @ Msg v @ Split v @ Eta v),
      visualLength = length,
      trimToVisualLength = (\<lambda>s n. take (nat n) s),
      red = (\<lambda>s. s)\<rparr>"

definition lineOf :: "string \<Rightarrow> string \<Rightarrow> Task" where
  "lineOf title msg =
     (leaf ''make'' False False)
       \<lparr>Display := \<lparr>Template = lineDefaultTemplate, Index = 0,
                    Values = \<lparr>Status = [], Title = title, Msg = msg, Spinner = [], Eta = ''[1s]'',
                              Split = []\<rparr>\<rparr>\<rparr>"

subsection \<open>The estimated runtime of a group\<close>

text \<open>
  \<^verbatim>\<open>EstimatedRuntime\<close> computes in \<open>float64\<close>: it compares such numbers, adds them and takes
  maxima. The model is written for any linearly ordered type \<open>'a\<close> with a zero and an
  addition, and takes the conversion \<^verbatim>\<open>Duration.Seconds()\<close> as a parameter; with the real
  numbers and \<open>Seconds\<close> below it is the computation in exact arithmetic. The rounding of
  \<open>float64\<close> is not modelled.
\<close>

definition Seconds :: "int \<Rightarrow> real" where
  "Seconds d = real_of_int d / 1000000000"

text \<open>
  Modelled from the spec: \<^verbatim>\<open>MinMax\<close> and \<^verbatim>\<open>remove\<close> are functions of this repository that
  are not under src/. The spec (4.7) has the simulation advance to the smallest in-flight
  end-time, remove it, and report the maximum end-time: \<open>MinMax\<close> gives the smallest and
  the largest element of a list (nothing for the empty list), \<open>remove_value\<close> takes one
  occurrence of a value out of a list.
\<close>

definition MinMax :: "'a::linorder list \<Rightarrow> ('a \<times> 'a) option" where
  "MinMax array = (case array of [] \<Rightarrow> None | x # xs \<Rightarrow> Some (fold min xs x, fold max xs x))"

definition remove_value :: "'a list \<Rightarrow> 'a \<Rightarrow> 'a list" where
  "remove_value xs v = remove1 v xs"

text \<open>The variables of the loop in \<^verbatim>\<open>EstimatedRuntime\<close>.\<close>

record 'a simulation =
  maxParallelEstimatedRuntime :: 'a
  taskEndSecond :: "'a list"
  currentSecond :: 'a
  remainingParallelTasks :: int

text \<open>One pass of the loop body, for one sub-task; \<open>None\<close> where \<open>MinMax\<close> has no result.\<close>

definition simulateTask ::
  "(int \<Rightarrow> 'a) \<Rightarrow> Task \<Rightarrow> ('a::{linorder,plus}) simulation \<Rightarrow> 'a simulation option" where
  "simulateTask seconds subTask s =
     (if CmdString subTask \<noteq> [] \<and> EstimatedRuntime (Command subTask) \<noteq> -1 then
        (case (if remainingParallelTasks s = 0
               then (case MinMax (taskEndSecond s) of
                       None \<Rightarrow> None
                     | Some (minEndSecond, _) \<Rightarrow>
                         Some (s\<lparr>remainingParallelTasks := remainingParallelTasks s + 1,
                                 taskEndSecond := remove_value (taskEndSecond s) minEndSecond,
                                 currentSecond := minEndSecond\<rparr>))
               else Some s) of
           None \<Rightarrow> None
         | Some s1 \<Rightarrow>
             (let ends = taskEndSecond s1
                           @ [currentSecond s1 + seconds (EstimatedRuntime (Command subTask))]
              in case MinMax ends of
                   None \<Rightarrow> None
                 | Some (_, maxEndSecond) \<Rightarrow>
                     Some (s1\<lparr>taskEndSecond := ends,
                              remainingParallelTasks := remainingParallelTasks s1 - 1,
                              maxParallelEstimatedRuntime :=
                                max (maxParallelEstimatedRuntime s1) maxEndSecond\<rparr>)))
      else Some s)"

fun simulateTasks ::
  "(int \<Rightarrow> 'a) \<Rightarrow> ('a::{linorder,plus}) simulation \<Rightarrow> Task list \<Rightarrow> 'a simulation option" where
  "simulateTasks seconds s [] = Some s"
| "simulateTasks seconds s (subTask # subTasks) =
     (case simulateTask seconds subTask s of
        None \<Rightarrow> None
      | Some s' \<Rightarrow> simulateTasks seconds s' subTasks)"

text \<open>The method \<^verbatim>\<open>EstimatedRuntime\<close> of a task (the field of that name is the estimate of a command).\<close>

definition Task_EstimatedRuntime ::
  "(int \<Rightarrow> 'a) \<Rightarrow> Options \<Rightarrow> Group \<Rightarrow> ('a::{linorder,plus,zero}) option" where
  "Task_EstimatedRuntime seconds opts task =
     (let etaSeconds = (if CmdString task \<noteq> [] \<and> EstimatedRuntime (Command task) \<noteq> -1
                        then 0 + seconds (EstimatedRuntime (Command task)) else 0)
      in case simulateTasks seconds
                \<lparr>maxParallelEstimatedRuntime = 0, taskEndSecond = [], currentSecond = 0,
                 remainingParallelTasks = MaxParallelCmds opts\<rparr>
                (ParallelTasks task) of
           None \<Rightarrow> None
         | Some s \<Rightarrow> Some (etaSeconds + maxParallelEstimatedRuntime s))"

text \<open>A sub-task that takes part in the simulation: it has a command and a known estimate.\<close>

definition hasEstimate :: "Task \<Rightarrow> bool" where
  "hasEstimate t \<longleftrightarrow> CmdString t \<noteq> [] \<and> EstimatedRuntime (Command t) \<noteq> -1"

text \<open>
  The simulation in the words of the spec (4.7), for the estimates of the children that
  have one: with a free slot the child starts at \<open>now\<close>; otherwise \<open>now\<close> advances to the
  smallest in-flight end-time, which is removed, and the child starts then. The result
  lists the end-time scheduled for each child.
\<close>

fun scheduledEnds :: "nat \<Rightarrow> ('a::{linorder,plus}) list \<Rightarrow> 'a \<Rightarrow> 'a list \<Rightarrow> 'a list" where
  "scheduledEnds free inflight now [] = []"
| "scheduledEnds free inflight now (e # es) =
     (if free > 0
      then (now + e) # scheduledEnds (free - 1) (inflight @ [now + e]) now es
      else (let now' = Min (set inflight)
            in (now' + e) # scheduledEnds 0 (remove1 now' inflight @ [now' + e]) now' es))"

text \<open>The sum of \<open>n\<close> copies of \<open>x\<close>, added one after the other to zero.\<close>

fun repeatedSum :: "('a::{plus,zero}) \<Rightarrow> nat \<Rightarrow> 'a" where
  "repeatedSum x 0 = 0"
| "repeatedSum x (Suc n) = repeatedSum x n + x"

text \<open>A child with a command and the estimate \<open>d\<close> nanoseconds; a group of \<open>n\<close> such children.\<close>

definition estimated :: "int \<Rightarrow> Task" where
  "estimated d = (leaf ''sleep'' False False)
     \<lparr>Command := \<lparr>Cmd = [''sleep''], StartTime = 0, StopTime = 0, EstimatedRuntime = d,
                  Started = False, Complete = False, ReturnCode = -1\<rparr>\<rparr>"

text \<open>
  The state of the loop when every child so far had the estimate \<open>x\<close> and \<open>P\<close> commands may
  run in parallel: \<open>q\<close> full rounds are behind and the round under way holds \<open>r\<close> children.
\<close>

definition uniformState :: "nat \<Rightarrow> ('a::{plus,zero}) \<Rightarrow> nat \<Rightarrow> nat \<Rightarrow> 'a simulation" where
  "uniformState P x q r =
     \<lparr>maxParallelEstimatedRuntime = repeatedSum x (Suc q),
      taskEndSecond = replicate (if q = 0 then 0 else P - r) (repeatedSum x q)
                        @ replicate r (repeatedSum x (Suc q)),
      currentSecond = repeatedSum x q,
      remainingParallelTasks = (if q = 0 then int P - int r else 0)\<rparr>"

subsection \<open>Facts about the stream splitter\<close>

lemma strings_Index_absent: "c \<notin> set xs \<Longrightarrow> strings_Index xs c = -1"
  by (induction xs) (auto simp: Let_def)

lemma strings_Index_present:
  "c \<in> set xs \<Longrightarrow> strings_Index xs c = int (length (takeWhile (\<lambda>x. x \<noteq> c) xs))"
proof (induction xs)
  case Nil
  then show ?case by simp
next
  case (Cons x xs)
  show ?case
  proof (cases "x = c")
    case True
    then show ?thesis by simp
  next
    case False
    with Cons.prems have "c \<in> set xs" by simp
    with Cons.IH False show ?thesis by (simp add: Let_def)
  qed
qed

lemma take_length_takeWhile: "take (length (takeWhile P xs)) xs = takeWhile P xs"
  by (induction xs) auto

lemma sint_double_width:
  fixes w :: "64 word"
  assumes "unat w < 2 ^ 62"
  shows "sint (w * 2) = 2 * int (unat w)"
proof -
  have a: "unat w * unat (2 :: 64 word) < 2 ^ LENGTH(64)"
    using assms by simp
  have u: "unat (w * 2) = unat w * unat (2 :: 64 word)"
    using a by (rule unat_mult_lem [THEN iffD1])
  have b: "unat (w * 2) < 2 ^ 63"
    using assms u by simp
  have c: "uint (w * 2) < 2 ^ 63"
  proof -
    have "int (unat (w * 2)) < int (2 ^ 63)"
      using b by (simp only: of_nat_less_iff)
    then show ?thesis
      unfolding uint_nat by simp
  qed
  have c0: "- (2 ^ 63) \<le> uint (w * 2)"
    by (rule order_trans [of _ 0]) simp_all
  have "signed_take_bit 63 (uint (w * 2)) = uint (w * 2)"
    using c0 c by (rule signed_take_bit_int_eq_self)
  then have "sint (w * 2) = uint (w * 2)"
    by (simp add: sint_uint)
  also have "\<dots> = int (unat w * unat (2 :: 64 word))"
    unfolding uint_nat u ..
  finally show ?thesis by simp
qed

text \<open>
  Claim C3, as the code has it. For a terminal width whose double fits a signed 64-bit
  integer: a buffer holding a newline yields the bytes before its first newline, and the
  newline is consumed, even when a carriage return stands earlier in the buffer; a buffer
  with a carriage return and no newline yields the bytes before its first carriage return,
  which is consumed; a buffer with neither that is longer than twice the terminal width
  yields a token of exactly twice the terminal width in bytes; otherwise, at end of stream,
  the non-empty residue is the final token, and an empty buffer at end of stream yields no
  token.
\<close>

theorem variableSplitFunc_cases:
  assumes tw: "unat terminalWidth < 2 ^ 62"
  shows "(LF \<in> set data \<longrightarrow>
            variableSplitFunc terminalWidth data atEOF =
              Inr (int (length (takeWhile (\<lambda>c. c \<noteq> LF) data)) + 1,
                   Some (takeWhile (\<lambda>c. c \<noteq> LF) data)))
       \<and> (LF \<notin> set data \<and> CR \<in> set data \<longrightarrow>
            variableSplitFunc terminalWidth data atEOF =
              Inr (int (length (takeWhile (\<lambda>c. c \<noteq> CR) data)) + 1,
                   Some (takeWhile (\<lambda>c. c \<noteq> CR) data)))
       \<and> (LF \<notin> set data \<and> CR \<notin> set data \<and> 2 * unat terminalWidth < length data \<longrightarrow>
            variableSplitFunc terminalWidth data atEOF =
              Inr (2 * int (unat terminalWidth), Some (take (2 * unat terminalWidth) data))
            \<and> length (take (2 * unat terminalWidth) data) = 2 * unat terminalWidth)
       \<and> (LF \<notin> set data \<and> CR \<notin> set data \<and> length data \<le> 2 * unat terminalWidth
             \<and> data \<noteq> [] \<and> atEOF \<longrightarrow>
            variableSplitFunc terminalWidth data atEOF = Inr (int (length data), Some data))
       \<and> (data = [] \<and> atEOF \<longrightarrow> variableSplitFunc terminalWidth data atEOF = Inr (0, None))"
proof -
  note w = sint_double_width [OF tw]
  have lf: "LF \<in> set data \<Longrightarrow> strings_Index data LF = int (length (takeWhile (\<lambda>c. c \<noteq> LF) data))"
    by (rule strings_Index_present)
  have cr: "CR \<in> set data \<Longrightarrow> strings_Index data CR = int (length (takeWhile (\<lambda>c. c \<noteq> CR) data))"
    by (rule strings_Index_present)
  have nlf: "LF \<notin> set data \<Longrightarrow> strings_Index data LF = -1"
    by (rule strings_Index_absent)
  have ncr: "CR \<notin> set data \<Longrightarrow> strings_Index data CR = -1"
    by (rule strings_Index_absent)
  have c1: "LF \<in> set data \<Longrightarrow>
            variableSplitFunc terminalWidth data atEOF =
              Inr (int (length (takeWhile (\<lambda>c. c \<noteq> LF) data)) + 1,
                   Some (takeWhile (\<lambda>c. c \<noteq> LF) data))"
    using lf by (auto simp: variableSplitFunc_def take_length_takeWhile)
  have c2: "LF \<notin> set data \<Longrightarrow> CR \<in> set data \<Longrightarrow>
            variableSplitFunc terminalWidth data atEOF =
              Inr (int (length (takeWhile (\<lambda>c. c \<noteq> CR) data)) + 1,
                   Some (takeWhile (\<lambda>c. c \<noteq> CR) data))"
    using cr nlf by (auto simp: variableSplitFunc_def take_length_takeWhile)
  have c3: "variableSplitFunc terminalWidth data atEOF =
              Inr (2 * int (unat terminalWidth), Some (take (2 * unat terminalWidth) data))"
    if "LF \<notin> set data" "CR \<notin> set data" "2 * unat terminalWidth < length data"
  proof -
    have "2 * int (unat terminalWidth) < int (length data)"
      using that(3) by linarith
    moreover have "data \<noteq> []"
      using that(3) by auto
    moreover have "nat (2 * int (unat terminalWidth)) = 2 * unat terminalWidth"
      by linarith
    ultimately show ?thesis
      using nlf [OF that(1)] ncr [OF that(2)]
      by (simp only: variableSplitFunc_def w) simp
  qed
  have c4: "variableSplitFunc terminalWidth data atEOF = Inr (int (length data), Some data)"
    if "LF \<notin> set data" "CR \<notin> set data" "length data \<le> 2 * unat terminalWidth"
       "data \<noteq> []" "atEOF"
  proof -
    have "\<not> 2 * int (unat terminalWidth) < int (length data)"
      using that(3) by linarith
    then show ?thesis
      using nlf [OF that(1)] ncr [OF that(2)] that(4,5)
      by (simp only: variableSplitFunc_def w) simp
  qed
  have c5: "data = [] \<Longrightarrow> atEOF \<Longrightarrow> variableSplitFunc terminalWidth data atEOF = Inr (0, None)"
    by (simp add: variableSplitFunc_def)
  from c1 c2 c3 c4 c5 show ?thesis
    by (simp add: min_def)
qed

text \<open>
  Claim C3 as stated fails: in the buffer \<open>a CR b LF\<close> the first terminator is the carriage
  return, so the token would be \<open>a\<close> with two bytes consumed; the code looks for a newline
  first and returns \<open>a CR b\<close>, consuming four bytes.
\<close>

theorem variableSplitFunc_first_terminator_counterexample:
  "variableSplitFunc 80 [CHR ''a'', CR, CHR ''b'', LF] False = Inr (4, Some [CHR ''a'', CR, CHR ''b''])
   \<and> variableSplitFunc 80 [CHR ''a'', CR, CHR ''b'', LF] False \<noteq> Inr (2, Some [CHR ''a''])"
  by (simp add: variableSplitFunc_def)

text \<open>The splitter's cases at concrete buffers, for a terminal one column wide.\<close>

theorem variableSplitFunc_cases_witness:
  "unat (1 :: 64 word) < 2 ^ 62
   \<and> LF \<in> set [CHR ''a'', CR, CHR ''b'', LF]
   \<and> variableSplitFunc 1 [CHR ''a'', CR, CHR ''b'', LF] False = Inr (4, Some [CHR ''a'', CR, CHR ''b''])
   \<and> LF \<notin> set [CHR ''a'', CR, CHR ''b''] \<and> CR \<in> set [CHR ''a'', CR, CHR ''b'']
   \<and> variableSplitFunc 1 [CHR ''a'', CR, CHR ''b''] False = Inr (2, Some [CHR ''a''])
   \<and> 2 * unat (1 :: 64 word) < length ''abc''
   \<and> variableSplitFunc 1 ''abc'' False = Inr (2, Some ''ab'')
   \<and> variableSplitFunc 1 ''ab'' True = Inr (2, Some ''ab'')
   \<and> variableSplitFunc 1 [] True = Inr (0, None)"
proof -
  have h: "unat (1 :: 64 word) < 2 ^ 62" by simp
  show ?thesis
    using h
      variableSplitFunc_cases [OF h, of "[CHR ''a'', CR, CHR ''b'', LF]" False]
      variableSplitFunc_cases [OF h, of "[CHR ''a'', CR, CHR ''b'']" False]
      variableSplitFunc_cases [OF h, of "''abc''" False]
      variableSplitFunc_cases [OF h, of "''ab''" True]
      variableSplitFunc_cases [OF h, of "[]" True]
    by simp
qed

subsection \<open>Facts about the runner\<close>

lemma sent_append: "sent (xs @ ys) = sent xs @ sent ys"
  by (induction xs rule: sent.induct) auto

lemma sent_map_Send: "sent (map (\<lambda>m. Send (f m)) ms) = map f ms"
  by (induction ms) auto

lemma lineRecord_fields:
  "irTask (lineRecord self m) = self" "irStatus (lineRecord self m) = StatusRunning"
  "\<not> irComplete (lineRecord self m)" "irReturnCode (lineRecord self m) = -1"
  by (cases m; simp add: lineRecord_def)+

lemma sent_run:
  "sent (run self task p) =
     firstRecord self # map (lineRecord self) (received p)
     @ (case waitStatusOf p of None \<Rightarrow> [] | Some ws \<Rightarrow> [terminalRecord self task ws])"
  by (simp add: run_def sent_append sent_map_Send waitStatusOf_def firstRecord_def
      terminalRecord_def Let_def split: option.split)

lemma filter_complete_lines: "filter irComplete (map (lineRecord self) ms) = []"
  by (induction ms) (simp_all add: lineRecord_fields)

lemma complete_sent_run:
  "filter irComplete (sent (run self task p)) =
     (case waitStatusOf p of None \<Rightarrow> [] | Some ws \<Rightarrow> [terminalRecord self task ws])"
  by (simp add: sent_run filter_complete_lines firstRecord_def terminalRecord_def split: option.split)

lemma irTask_sent_run: "r \<in> set (sent (run self task p)) \<Longrightarrow> irTask r = self"
  by (auto simp: sent_run firstRecord_def terminalRecord_def lineRecord_fields split: option.splits)

lemma run_started_terminal:
  assumes "waitStatusOf p = Some ws"
  shows "filter irComplete (sent (run self task p)) = [terminalRecord self task ws]
         \<and> last (sent (run self task p)) = terminalRecord self task ws
         \<and> (irStatus (terminalRecord self task ws) = StatusSuccess
              \<longleftrightarrow> ExitStatus ws = 0 \<or> IgnoreFailure task)
         \<and> (irStatus (terminalRecord self task ws) = StatusError
              \<longleftrightarrow> \<not> (ExitStatus ws = 0 \<or> IgnoreFailure task))"
proof -
  have "filter irComplete (sent (run self task p)) = [terminalRecord self task ws]"
    using assms by (simp add: complete_sent_run)
  moreover have "last (sent (run self task p)) = terminalRecord self task ws"
    using assms by (simp add: sent_run)
  ultimately show ?thesis
    by (simp add: terminalRecord_def)
qed

text \<open>
  Claim C9, at the failing input. When the subprocess cannot be created, \<open>run\<close> sends the
  initial Running record and then panics on the nil \<^verbatim>\<open>ProcessState\<close>: it sends no terminal
  record, neither an Error record with return code \<open>-1\<close> nor any other.
\<close>

theorem run_spawnFailed_panics:
  "run self task spawnFailed =
     [Send \<lparr>irTask = self, irStatus = StatusRunning, irStdout = [], irStderr = [],
            irComplete = False, irReturnCode = -1\<rparr>,
      Panic NilPointerDereference]"
  by (simp add: run_def spawnFailed_def)

text \<open>
  Claim C4, at the failing input. The run of a leaf task whose program does not exist sends
  no record with \<open>complete = true\<close>, and its last effect is the panic. (For a subprocess
  that was started, \<open>run_started_terminal\<close> above gives the one terminal record, last in
  the run, with status Success exactly when the return code is 0 or the task ignores
  failure.)
\<close>

theorem run_no_terminal_record_example:
  "filter irComplete (sent (run 0 (leaf ''no-such-program'' False False) spawnFailed)) = []
   \<and> last (run 0 (leaf ''no-such-program'' False False) spawnFailed) = Panic NilPointerDereference"
  by (simp add: run_def spawnFailed_def)

text \<open>
  Claim C10. In every run of a leaf task the first effect is the sending of a record with
  status Running, return code \<open>-1\<close>, no stdout line and no stderr line; every record sent
  before the terminal record has status Running and return code \<open>-1\<close>; and no record sent
  has status Pending.
\<close>

theorem run_records_before_terminal:
  "hd (run self task p) = Send (hd (sent (run self task p)))
   \<and> hd (sent (run self task p)) =
        \<lparr>irTask = self, irStatus = StatusRunning, irStdout = [], irStderr = [],
         irComplete = False, irReturnCode = -1\<rparr>
   \<and> (\<forall>r \<in> set (takeWhile (\<lambda>r. \<not> irComplete r) (sent (run self task p))).
         irStatus r = StatusRunning \<and> irReturnCode r = -1)
   \<and> (\<forall>r \<in> set (sent (run self task p)). irStatus r \<noteq> StatusPending)"
proof -
  have a: "hd (run self task p) = Send (hd (sent (run self task p)))"
    by (simp add: run_def)
  have b: "hd (sent (run self task p)) = firstRecord self"
    by (simp add: sent_run)
  have c: "irStatus r = StatusRunning \<and> irReturnCode r = -1"
    if "r \<in> set (takeWhile (\<lambda>r. \<not> irComplete r) (sent (run self task p)))" for r
  proof -
    from that have "r \<in> set (sent (run self task p))" and "\<not> irComplete r"
      by (auto dest: set_takeWhileD)
    then show ?thesis
      by (auto simp: sent_run firstRecord_def terminalRecord_def lineRecord_fields
          split: option.splits)
  qed
  have d: "irStatus r \<noteq> StatusPending" if "r \<in> set (sent (run self task p))" for r
    using that
    by (auto simp: sent_run firstRecord_def terminalRecord_def lineRecord_fields
        split: option.splits if_splits)
  from a b c d show ?thesis
    by (simp add: firstRecord_def)
qed

text \<open>A run of \<open>false\<close> that prints one line on each stream: three records precede the terminal one.\<close>

theorem run_records_before_terminal_witness:
  "takeWhile (\<lambda>r. \<not> irComplete r)
     (sent (run 0 (leaf ''false'' True False)
        \<lparr>received = [stdoutMsg ''a'', stderrMsg ''b''], waitErr = ExitError (WaitStatus 1),
         ProcessState = Some (WaitStatus 1)\<rparr>))
   = [\<lparr>irTask = 0, irStatus = StatusRunning, irStdout = [], irStderr = [],
        irComplete = False, irReturnCode = -1\<rparr>,
      \<lparr>irTask = 0, irStatus = StatusRunning, irStdout = ''a'', irStderr = [],
        irComplete = False, irReturnCode = -1\<rparr>,
      \<lparr>irTask = 0, irStatus = StatusRunning, irStdout = [], irStderr = ''b'',
        irComplete = False, irReturnCode = -1\<rparr>]
   \<and> map irStatus (takeWhile (\<lambda>r. \<not> irComplete r)
          (sent (run 0 (leaf ''false'' True False)
            \<lparr>received = [stdoutMsg ''a'', stderrMsg ''b''], waitErr = ExitError (WaitStatus 1),
             ProcessState = Some (WaitStatus 1)\<rparr>)))
        = [StatusRunning, StatusRunning, StatusRunning]
   \<and> StatusPending \<notin> irStatus ` set (sent (run 0 (leaf ''false'' True False)
            \<lparr>received = [stdoutMsg ''a'', stderrMsg ''b''], waitErr = ExitError (WaitStatus 1),
             ProcessState = Some (WaitStatus 1)\<rparr>))
   \<and> hd (run 0 (leaf ''false'' True False)
            \<lparr>received = [stdoutMsg ''a'', stderrMsg ''b''], waitErr = ExitError (WaitStatus 1),
             ProcessState = Some (WaitStatus 1)\<rparr>)
        = Send \<lparr>irTask = 0, irStatus = StatusRunning, irStdout = [], irStderr = [],
                irComplete = False, irReturnCode = -1\<rparr>"
proof -
  define p where "p = \<lparr>received = [stdoutMsg ''a'', stderrMsg ''b''],
    waitErr = ExitError (WaitStatus 1), ProcessState = Some (WaitStatus 1)\<rparr>"
  have e: "takeWhile (\<lambda>r. \<not> irComplete r) (sent (run 0 (leaf ''false'' True False) p))
   = [\<lparr>irTask = 0, irStatus = StatusRunning, irStdout = [], irStderr = [],
        irComplete = False, irReturnCode = -1\<rparr>,
      \<lparr>irTask = 0, irStatus = StatusRunning, irStdout = ''a'', irStderr = [],
        irComplete = False, irReturnCode = -1\<rparr>,
      \<lparr>irTask = 0, irStatus = StatusRunning, irStdout = [], irStderr = ''b'',
        irComplete = False, irReturnCode = -1\<rparr>]"
    by (simp add: run_def lineRecord_def leaf_def p_def)
  note T = run_records_before_terminal [of 0 "leaf ''false'' True False" p]
  from T have "\<forall>r \<in> set (takeWhile (\<lambda>r. \<not> irComplete r)
      (sent (run 0 (leaf ''false'' True False) p))). irStatus r = StatusRunning"
    by blast
  then have a: "map irStatus (takeWhile (\<lambda>r. \<not> irComplete r)
      (sent (run 0 (leaf ''false'' True False) p))) = [StatusRunning, StatusRunning, StatusRunning]"
    unfolding e by simp
  from T have b: "StatusPending \<notin> irStatus ` set (sent (run 0 (leaf ''false'' True False) p))"
    by auto
  from T have c: "hd (run 0 (leaf ''false'' True False) p)
        = Send \<lparr>irTask = 0, irStatus = StatusRunning, irStdout = [], irStderr = [],
                irComplete = False, irReturnCode = -1\<rparr>"
    by simp
  from e a b c show ?thesis
    unfolding p_def by (intro conjI)
qed

subsection \<open>Facts about the scheduler\<close>

lemma inFlight_card:
  "inFlight st = card {k. k < length (tasks st) \<and> isStarted (tasks st ! k) \<and> \<not> isComplete (tasks st ! k)}"
  by (simp add: inFlight_def length_filter_conv_card)

lemma nth_list_update_if: "xs[i := x] ! j = (if i = j \<and> i < length xs then x else xs ! j)"
  by (cases "i < length xs") (simp_all add: nth_list_update list_update_beyond)

lemma length_tasks_launch [simp]: "length (tasks (launch env j st)) = length (tasks st)"
  by (simp add: launch_def)

lemma handleResult_running:
  assumes "\<not> irComplete m"
  shows "length (tasks (handleResult env m st)) = length (tasks st)"
    and "k < length (tasks st) \<Longrightarrow> Command (tasks (handleResult env m st) ! k) = Command (tasks st ! k)"
    and "runners (handleResult env m st) = runners st"
    and "runningCmds (handleResult env m st) = runningCmds st"
    and "lastStartedTask (handleResult env m st) = lastStartedTask st"
  using assms by (simp_all add: handleResult_def Let_def nth_list_update_if)

lemma handleResult_terminal:
  fixes env m st
  defines "j \<equiv> lastStartedTask st"
  defines "st' \<equiv> handleResult env m st"
  assumes "irComplete m" and "irTask m < length (tasks st)"
  shows "length (tasks st') = length (tasks st)"
    and "k < length (tasks st) \<Longrightarrow>
           isStarted (tasks st' ! k) = (isStarted (tasks st ! k) \<or> k = j)"
    and "k < length (tasks st) \<Longrightarrow>
           isComplete (tasks st' ! k) = (isComplete (tasks st ! k) \<or> k = irTask m)"
    and "length (runners st') = length (runners st)"
    and "k < length (runners st) \<Longrightarrow> k \<noteq> j \<Longrightarrow> runners st' ! k = runners st ! k"
    and "j < length (tasks st) \<Longrightarrow> j < length (runners st) \<Longrightarrow>
           length (filter irComplete (sent (runners st' ! j))) \<le> 1
           \<and> (\<forall>r \<in> set (sent (runners st' ! j)). irTask r = j)"
    and "runningCmds st' = runningCmds st - 1 + (if j < length (tasks st) then 1 else 0)"
    and "lastStartedTask st' = j + (if j < length (tasks st) then 1 else 0)"
  using assms(3,4) unfolding j_def st'_def
  by (auto simp add: handleResult_def launch_def Let_def nth_list_update_if complete_sent_run
      irTask_sent_run split: option.split)


lemma schedInv_terminal:
  assumes inv: "schedInv opts st" and i: "i < length (tasks st)"
    and r: "runners st ! i = Send m # es" and c: "irComplete m"
  shows "schedInv opts (handleResult env m (st\<lparr>runners := (runners st)[i := es]\<rparr>))"
proof -
  define n where "n = length (tasks st)"
  define j where "j = lastStartedTask st"
  define st0 where "st0 = st\<lparr>runners := (runners st)[i := es]\<rparr>"
  define st' where "st' = handleResult env m st0"
  from inv have len: "length (runners st) = n" and jn: "j \<le> n"
    and rc: "runningCmds st = int (inFlight st)"
    and bound: "runningCmds st \<le> MaxParallelCmds opts"
    by (simp_all add: schedInv_def n_def j_def)
  from inv have K: "(isStarted (tasks st ! k) \<longleftrightarrow> k < j) \<and>
        (isComplete (tasks st ! k) \<longrightarrow> k < j \<and> filter irComplete (sent (runners st ! k)) = []) \<and>
        length (filter irComplete (sent (runners st ! k))) \<le> 1 \<and>
        (\<forall>r \<in> set (sent (runners st ! k)). irTask r = k) \<and>
        (j \<le> k \<longrightarrow> runners st ! k = [])" if "k < n" for k
    using that by (simp add: schedInv_def n_def j_def)
  have i': "i < n" using i by (simp add: n_def)
  have mi: "irTask m = i" using K [OF i'] r by simp
  have ij: "i < j" using K [OF i'] r by (cases "j \<le> i") simp_all
  have nc: "\<not> isComplete (tasks st ! i)" using K [OF i'] r c by auto
  have si: "isStarted (tasks st ! i)" using K [OF i'] ij by simp
  have es0: "filter irComplete (sent es) = []" using K [OF i'] r c by simp
  have t0: "tasks st0 = tasks st" "lastStartedTask st0 = j" "runningCmds st0 = runningCmds st"
    "runners st0 = (runners st)[i := es]"
    by (simp_all add: st0_def j_def)
  have m0: "irTask m < length (tasks st0)" using mi i by (simp add: t0)
  note H = handleResult_terminal [where env = env, OF c m0, folded st'_def, unfolded t0]
  have l': "length (tasks st') = n" using H(1) by (simp add: n_def)
  have lr': "length (runners st') = n" using H(4) len by simp
  have j': "lastStartedTask st' = j + (if j < n then 1 else 0)" using H(8) by (simp add: n_def)
  have rc': "runningCmds st' = runningCmds st - 1 + (if j < n then 1 else 0)"
    using H(7) by (simp add: n_def)
  have st: "isStarted (tasks st' ! k) = (isStarted (tasks st ! k) \<or> k = j)" if "k < n" for k
    using H(2) [of k] that by (simp add: n_def)
  have co: "isComplete (tasks st' ! k) = (isComplete (tasks st ! k) \<or> k = i)" if "k < n" for k
    using H(3) [of k] that mi by (simp add: n_def)
  have ru: "runners st' ! k = (if k = i then es else runners st ! k)" if "k < n" "k \<noteq> j" for k
    using H(5) [of k] that len by (simp add: nth_list_update_if)
  have rj: "length (filter irComplete (sent (runners st' ! j))) \<le> 1
           \<and> (\<forall>r \<in> set (sent (runners st' ! j)). irTask r = j)" if "j < n"
    using H(6) that len by (simp add: n_def)
  have perk: "(isStarted (tasks st' ! k) \<longleftrightarrow> k < lastStartedTask st') \<and>
        (isComplete (tasks st' ! k) \<longrightarrow>
           k < lastStartedTask st' \<and> filter irComplete (sent (runners st' ! k)) = []) \<and>
        length (filter irComplete (sent (runners st' ! k))) \<le> 1 \<and>
        (\<forall>r \<in> set (sent (runners st' ! k)). irTask r = k) \<and>
        (lastStartedTask st' \<le> k \<longrightarrow> runners st' ! k = [])" if k: "k < n" for k
  proof (cases "k = j")
    case True
    then have "j < n" using k by simp
    moreover have "\<not> isComplete (tasks st ! j)" using K [of j] \<open>j < n\<close> by auto
    moreover have "j \<noteq> i" using ij by simp
    ultimately show ?thesis
      using True rj st [OF k] co [OF k] j' by simp
  next
    case False
    show ?thesis
    proof (cases "k = i")
      case True
      then show ?thesis
        using False K [OF i'] st [OF k] co [OF k] ru [OF k False] j' es0 ij r by auto
    next
      case ki: False
      then show ?thesis
        using False K [OF k] st [OF k] co [OF k] ru [OF k False] j' by auto
    qed
  qed
  have S: "{k. k < length (tasks st') \<and> isStarted (tasks st' ! k) \<and> \<not> isComplete (tasks st' ! k)}
      = ({k. k < n \<and> isStarted (tasks st ! k) \<and> \<not> isComplete (tasks st ! k)} - {i})
        \<union> (if j < n then {j} else {})"
    (is "?S' = (?S - {i}) \<union> ?J")
  proof -
    have jc: "\<not> isComplete (tasks st ! j)" if "j < n"
      using K [of j] that by auto
    show ?thesis
      unfolding l' using st co jc ij by (auto split: if_splits)
  qed
  have fin: "finite {k. k < n \<and> isStarted (tasks st ! k) \<and> \<not> isComplete (tasks st ! k)}"
    by simp
  have iS: "i \<in> {k. k < n \<and> isStarted (tasks st ! k) \<and> \<not> isComplete (tasks st ! k)}"
    using i' si nc by simp
  have jS: "j \<notin> {k. k < n \<and> isStarted (tasks st ! k) \<and> \<not> isComplete (tasks st ! k)}"
    using K [of j] by auto
  have cardS: "int (inFlight st') = int (inFlight st) - 1 + (if j < n then 1 else 0)"
  proof -
    have a: "card ({k. k < n \<and> isStarted (tasks st ! k) \<and> \<not> isComplete (tasks st ! k)} - {i})
          = inFlight st - 1"
      using iS fin by (simp add: inFlight_card n_def)
    have b: "1 \<le> inFlight st"
      using iS fin unfolding inFlight_card n_def [symmetric]
      by (metis One_nat_def Suc_leI card_gt_0_iff empty_iff)
    have "inFlight st' = inFlight st - 1 + (if j < n then 1 else 0)"
      unfolding inFlight_card [of st'] S using a jS fin by (simp add: card_insert_if)
    with b show ?thesis by (simp split: if_splits)
  qed
  have "schedInv opts st'"
    unfolding schedInv_def l' lr'
    using perk jn j' rc' rc bound cardS by (auto split: if_splits)
  then show ?thesis by (simp add: st'_def st0_def)
qed


lemma inFlight_cong:
  assumes "length (tasks st') = length (tasks st)"
    and "\<And>k. k < length (tasks st) \<Longrightarrow> Command (tasks st' ! k) = Command (tasks st ! k)"
  shows "inFlight st' = inFlight st"
  unfolding inFlight_card using assms by (auto intro!: arg_cong [where f = card])

lemma schedInv_running:
  assumes inv: "schedInv opts st" and i: "i < length (tasks st)"
    and r: "runners st ! i = Send m # es" and c: "\<not> irComplete m"
  shows "schedInv opts (handleResult env m (st\<lparr>runners := (runners st)[i := es]\<rparr>))"
proof -
  define n where "n = length (tasks st)"
  define j where "j = lastStartedTask st"
  define st0 where "st0 = st\<lparr>runners := (runners st)[i := es]\<rparr>"
  define st' where "st' = handleResult env m st0"
  from inv have len: "length (runners st) = n" and jn: "j \<le> n"
    and rc: "runningCmds st = int (inFlight st)"
    and bound: "runningCmds st \<le> MaxParallelCmds opts"
    by (simp_all add: schedInv_def n_def j_def)
  from inv have K: "(isStarted (tasks st ! k) \<longleftrightarrow> k < j) \<and>
        (isComplete (tasks st ! k) \<longrightarrow> k < j \<and> filter irComplete (sent (runners st ! k)) = []) \<and>
        length (filter irComplete (sent (runners st ! k))) \<le> 1 \<and>
        (\<forall>r \<in> set (sent (runners st ! k)). irTask r = k) \<and>
        (j \<le> k \<longrightarrow> runners st ! k = [])" if "k < n" for k
    using that by (simp add: schedInv_def n_def j_def)
  have i': "i < n" using i by (simp add: n_def)
  have ij: "i < j" using K [OF i'] r by (cases "j \<le> i") simp_all
  have t0: "tasks st0 = tasks st" "lastStartedTask st0 = j" "runningCmds st0 = runningCmds st"
    "runners st0 = (runners st)[i := es]"
    by (simp_all add: st0_def j_def)
  note H = handleResult_running [where env = env and st = st0, OF c, folded st'_def, unfolded t0]
  have l': "length (tasks st') = n" using H(1) by (simp add: n_def)
  have lr': "length (runners st') = n" using H(3) len by simp
  have cm: "Command (tasks st' ! k) = Command (tasks st ! k)" if "k < n" for k
    using H(2) [of k] that by (simp add: n_def)
  have ru: "runners st' ! k = (if k = i then es else runners st ! k)" if "k < n" for k
    using H(3) that len by (simp add: nth_list_update_if)
  have fl: "inFlight st' = inFlight st"
    by (rule inFlight_cong) (simp_all add: l' cm n_def [symmetric])
  have perk: "(isStarted (tasks st' ! k) \<longleftrightarrow> k < lastStartedTask st') \<and>
        (isComplete (tasks st' ! k) \<longrightarrow>
           k < lastStartedTask st' \<and> filter irComplete (sent (runners st' ! k)) = []) \<and>
        length (filter irComplete (sent (runners st' ! k))) \<le> 1 \<and>
        (\<forall>r \<in> set (sent (runners st' ! k)). irTask r = k) \<and>
        (lastStartedTask st' \<le> k \<longrightarrow> runners st' ! k = [])" if k: "k < n" for k
  proof (cases "k = i")
    case True
    have "filter irComplete (sent (runners st ! i)) = filter irComplete (sent es)"
      using r c by simp
    moreover have "set (sent es) \<subseteq> set (sent (runners st ! i))"
      using r by auto
    ultimately show ?thesis
      using True K [OF i'] cm [OF i'] ru [OF i'] H(5) ij by auto
  next
    case False
    then show ?thesis
      using K [OF k] cm [OF k] ru [OF k] H(5) by simp
  qed
  have "schedInv opts st'"
    unfolding schedInv_def l' lr'
    using perk jn H(4,5) rc bound fl by simp
  then show ?thesis by (simp add: st'_def st0_def)
qed

lemma schedInv_drop_effect:
  assumes inv: "schedInv opts st" and i: "i < length (tasks st)"
    and r: "runners st ! i = e # es" and e: "sent [e] = []"
  shows "schedInv opts (st\<lparr>runners := (runners st)[i := es], exitSignaled := x\<rparr>)"
proof -
  have s: "sent (runners st ! i) = sent es"
    using r e by (cases e) simp_all
  have "inFlight (st\<lparr>runners := (runners st)[i := es], exitSignaled := x\<rparr>) = inFlight st"
    by (simp add: inFlight_def)
  moreover have "runners st ! i \<noteq> []"
    using r by simp
  ultimately show ?thesis
    using inv i s unfolding schedInv_def
    by (auto simp: nth_list_update_if)
qed

lemma schedInv_step:
  assumes inv: "schedInv opts st"
  shows "schedInv opts (step env i st)"
proof (cases "halted st \<noteq> None \<or> length (runners st) \<le> i")
  case True
  then show ?thesis using inv by (simp add: step_def)
next
  case False
  then have i: "i < length (tasks st)" and h: "halted st = None" and ir: "i < length (runners st)"
    using inv by (simp_all add: schedInv_def)
  show ?thesis
  proof (cases "runners st ! i")
    case Nil
    then show ?thesis using inv by (simp add: step_def)
  next
    case (Cons e es)
    show ?thesis
    proof (cases e)
      case (Send m)
      show ?thesis
      proof (cases "runningCmds st > 0")
        case True
        have "schedInv opts (handleResult env m (st\<lparr>runners := (runners st)[i := es]\<rparr>))"
          using schedInv_terminal [OF inv i, of m es env] schedInv_running [OF inv i, of m es env]
            Cons Send by (cases "irComplete m") simp_all
        then show ?thesis
          using Cons Send True h ir by (simp add: step_def)
      next
        case False
        then show ?thesis using inv Cons Send by (simp add: step_def)
      qed
    next
      case SetExitSignaled
      then show ?thesis
        using schedInv_drop_effect [OF inv i, of e es True] Cons h ir
        by (simp add: step_def)
    next
      case (Panic p)
      have "inFlight (st\<lparr>halted := Some p\<rparr>) = inFlight st"
        by (simp add: inFlight_def)
      then have "schedInv opts (st\<lparr>halted := Some p\<rparr>)"
        using inv by (simp add: schedInv_def)
      then show ?thesis
        using Cons Panic h ir by (simp add: step_def)
    qed
  qed
qed

lemma schedInv_steps: "schedInv opts st \<Longrightarrow> schedInv opts (steps env st schedule)"
  by (induction schedule arbitrary: st) (simp_all add: schedInv_step)


lemma schedInv_launch:
  fixes env :: environment
  assumes inv: "schedInv opts st" and rc: "runningCmds st = int (lastStartedTask st)"
    and nc: "\<forall>k < length (tasks st). \<not> isComplete (tasks st ! k)"
    and lt: "int (lastStartedTask st) < MaxParallelCmds opts"
    and ln: "lastStartedTask st < length (tasks st)"
  defines "st' \<equiv> (launch env (lastStartedTask st) st)
                \<lparr>runningCmds := runningCmds st + 1, lastStartedTask := lastStartedTask st + 1\<rparr>"
  shows "schedInv opts st'" and "runningCmds st' = int (lastStartedTask st')"
    and "\<forall>k < length (tasks st'). \<not> isComplete (tasks st' ! k)"
proof -
  define n where "n = length (tasks st)"
  define j where "j = lastStartedTask st"
  from inv have len: "length (runners st) = n"
    and fl: "runningCmds st = int (inFlight st)"
    by (simp_all add: schedInv_def n_def)
  from inv have K: "(isStarted (tasks st ! k) \<longleftrightarrow> k < j) \<and>
        length (filter irComplete (sent (runners st ! k))) \<le> 1 \<and>
        (\<forall>r \<in> set (sent (runners st ! k)). irTask r = k) \<and>
        (j \<le> k \<longrightarrow> runners st ! k = [])" if "k < n" for k
    using that by (simp add: schedInv_def n_def j_def)
  have jn: "j < n" using ln by (simp add: n_def j_def)
  have l': "length (tasks st') = n" "length (runners st') = n" "lastStartedTask st' = j + 1"
    "runningCmds st' = runningCmds st + 1"
    using len by (simp_all add: st'_def launch_def n_def j_def)
  have st: "isStarted (tasks st' ! k) = (isStarted (tasks st ! k) \<or> k = j)"
    and co: "isComplete (tasks st' ! k) = isComplete (tasks st ! k)" if "k < n" for k
    using that by (auto simp: st'_def launch_def nth_list_update_if n_def j_def)
  have ru: "runners st' ! k = (if k = j then run j (tasks st ! j) (procs env j) else runners st ! k)"
    if "k < n" for k
    using that len by (auto simp: st'_def launch_def nth_list_update_if j_def)
  show c3: "\<forall>k < length (tasks st'). \<not> isComplete (tasks st' ! k)"
    using nc co by (simp add: l' n_def)
  show c2: "runningCmds st' = int (lastStartedTask st')"
    using rc by (simp add: l' j_def)
  have perk: "(isStarted (tasks st' ! k) \<longleftrightarrow> k < lastStartedTask st') \<and>
        (isComplete (tasks st' ! k) \<longrightarrow>
           k < lastStartedTask st' \<and> filter irComplete (sent (runners st' ! k)) = []) \<and>
        length (filter irComplete (sent (runners st' ! k))) \<le> 1 \<and>
        (\<forall>r \<in> set (sent (runners st' ! k)). irTask r = k) \<and>
        (lastStartedTask st' \<le> k \<longrightarrow> runners st' ! k = [])" if k: "k < n" for k
  proof -
    have "\<not> isComplete (tasks st' ! k)" using c3 k by (simp add: l')
    then show ?thesis
      using K [OF k] st [OF k] ru [OF k] l'(3)
      by (auto simp: complete_sent_run irTask_sent_run split: option.split)
  qed
  have S: "{k. k < length (tasks st') \<and> isStarted (tasks st' ! k) \<and> \<not> isComplete (tasks st' ! k)}
      = insert j {k. k < n \<and> isStarted (tasks st ! k) \<and> \<not> isComplete (tasks st ! k)}"
    unfolding l' using st co jn nc by (auto simp: n_def)
  have jS: "j \<notin> {k. k < n \<and> isStarted (tasks st ! k) \<and> \<not> isComplete (tasks st ! k)}"
    using K [OF jn] by simp
  have fl': "inFlight st' = inFlight st + 1"
    unfolding inFlight_card [of st'] S using jS by (simp add: inFlight_card n_def)
  have lt': "int j < MaxParallelCmds opts" and rc': "runningCmds st = int j"
    using lt rc by (simp_all add: j_def)
  have "runningCmds st' = int (inFlight st')" "runningCmds st' \<le> MaxParallelCmds opts"
    using fl' fl lt' rc' by (simp_all add: l')
  moreover have "lastStartedTask st' \<le> length (tasks st')"
    using jn by (simp add: l')
  moreover have "length (runners st') = length (tasks st')"
    by (simp add: l')
  ultimately show "schedInv opts st'"
    unfolding schedInv_def using perk by (simp add: l'(1))
qed

lemma schedInv_startInitial:
  "schedInv opts st \<Longrightarrow> runningCmds st = int (lastStartedTask st) \<Longrightarrow>
   \<forall>k < length (tasks st). \<not> isComplete (tasks st ! k) \<Longrightarrow>
   schedInv opts (startInitial opts env st)"
proof (induction opts env st rule: startInitial.induct)
  case (1 opts env st)
  show ?case
  proof (cases "int (lastStartedTask st) < MaxParallelCmds opts \<and> lastStartedTask st < length (tasks st)")
    case True
    then have lt: "int (lastStartedTask st) < MaxParallelCmds opts"
      and ln: "lastStartedTask st < length (tasks st)" by simp_all
    note L = schedInv_launch [OF "1.prems"(1) "1.prems"(2) "1.prems"(3) lt ln, of env]
    have "schedInv opts (startInitial opts env ((launch env (lastStartedTask st) st)
                \<lparr>runningCmds := runningCmds st + 1, lastStartedTask := lastStartedTask st + 1\<rparr>))"
      using True L by (intro "1.IH") simp_all
    then show ?thesis
      using True by (subst startInitial.simps) simp
  next
    case False
    then have "startInitial opts env st = st"
      by (subst startInitial.simps) auto
    then show ?thesis
      using "1.prems"(1) by simp
  qed
qed

lemma schedInv_initialSched:
  assumes "0 \<le> MaxParallelCmds opts"
    and "\<forall>t \<in> set (Tasks task). \<not> isStarted t \<and> \<not> isComplete t"
  shows "schedInv opts (initialSched opts task ct cache ex)"
    and "runningCmds (initialSched opts task ct cache ex)
          = int (lastStartedTask (initialSched opts task ct cache ex))"
    and "\<forall>k < length (tasks (initialSched opts task ct cache ex)).
           \<not> isComplete (tasks (initialSched opts task ct cache ex) ! k)"
proof -
  have f: "filter (\<lambda>t. isStarted t \<and> \<not> isComplete t) (tasks (initialSched opts task ct cache ex)) = []"
    using assms(2) by (auto simp: initialSched_def filter_empty_conv)
  have a: "\<not> isStarted (Tasks task ! k) \<and> \<not> isComplete (Tasks task ! k)"
    if "k < length (Tasks task)" for k
    using assms(2) nth_mem [OF that] by blast
  have k: "\<not> isStarted (tasks (initialSched opts task ct cache ex) ! k)
           \<and> \<not> isComplete (tasks (initialSched opts task ct cache ex) ! k)"
    if "k < length (Tasks task)" for k
    using a [OF that] that by (simp add: initialSched_def)
  have p: "length (tasks (initialSched opts task ct cache ex)) = length (Tasks task)"
    "runners (initialSched opts task ct cache ex) = replicate (length (Tasks task)) []"
    "runningCmds (initialSched opts task ct cache ex) = 0"
    "lastStartedTask (initialSched opts task ct cache ex) = 0"
    by (simp_all add: initialSched_def)
  show "schedInv opts (initialSched opts task ct cache ex)"
    unfolding schedInv_def inFlight_def f p
    using k assms(1) by simp
  show "runningCmds (initialSched opts task ct cache ex)
          = int (lastStartedTask (initialSched opts task ct cache ex))"
    by (simp add: p)
  show "\<forall>k < length (tasks (initialSched opts task ct cache ex)).
           \<not> isComplete (tasks (initialSched opts task ct cache ex) ! k)"
    using k by (simp add: p)
qed

lemma schedInv_Process:
  assumes "0 \<le> MaxParallelCmds opts"
    and "\<forall>t \<in> set (Tasks task). \<not> isStarted t \<and> \<not> isComplete t"
  shows "schedInv opts (Process opts env task ct cache ex schedule)"
  unfolding Process_def
  by (intro schedInv_steps schedInv_startInitial schedInv_initialSched assms)

lemma handleResult_launches_next:
  assumes "irComplete m" and "lastStartedTask st < length (tasks st)"
  shows "lastStartedTask (handleResult env m st) = lastStartedTask st + 1"
    and "isStarted (tasks (handleResult env m st) ! lastStartedTask st)"
  using assms by (simp_all add: handleResult_def launch_def Let_def nth_list_update_if)


text \<open>
  Claim C1, at the failing input: three children \<open>true\<close>, \<open>false\<close> with stop-on-failure,
  \<open>true\<close>, run with parallelism 1. The schedule lets each goroutine send its Running
  record and its terminal record. Once the terminal record of the second child has been
  handled, the third child is started, whether \<open>exitSignaled\<close> was clear or already set
  when \<^verbatim>\<open>Process\<close> began; the loop then goes on until the third child is complete, and
  \<^verbatim>\<open>Process\<close> returns the second child as the only failed task, with \<open>exitSignaled\<close> set.
\<close>

theorem Process_S3_starts_third_child:
  "map isStarted (tasks (Process optionsS3 envS3 groupS3 0 Map.empty False [0, 0, 1, 1]))
     = [True, True, True]
   \<and> map isStarted (tasks (Process optionsS3 envS3 groupS3 0 Map.empty True [0, 0, 1, 1]))
     = [True, True, True]
   \<and> returned (Process optionsS3 envS3 groupS3 0 Map.empty False [0, 0, 1, 1, 1, 2, 2])
   \<and> exitSignaled (Process optionsS3 envS3 groupS3 0 Map.empty False [0, 0, 1, 1, 1, 2, 2])
   \<and> failedTasks (Process optionsS3 envS3 groupS3 0 Map.empty False [0, 0, 1, 1, 1, 2, 2]) = [1]
   \<and> map isComplete (tasks (Process optionsS3 envS3 groupS3 0 Map.empty False [0, 0, 1, 1, 1, 2, 2]))
     = [True, True, True]"
  by (simp add: Process_def optionsS3_def envS3_def groupS3_def groupOf_def leaf_def exits_def
      initialSched_def Tasks_def Task.truncate_def Task.extend_def Group.fields_def
      startInitial.simps step_def launch_def handleResult_def run_def returned_def Let_def)

text \<open>
  Claim C2. Let \<^verbatim>\<open>MaxParallelCmds\<close> be non-negative and let \<^verbatim>\<open>Process\<close> be given tasks that
  are neither started nor complete. Then after every schedule, that is at every moment
  between two steps of the run, the number of tasks started and not complete is at most
  \<^verbatim>\<open>MaxParallelCmds\<close>; the started tasks are exactly those before \<open>lastStartedTask\<close> in
  the declared order; and handling a terminal record while an unstarted task remains
  starts the task at \<open>lastStartedTask\<close>, the next one by index, in that same step.
\<close>

theorem Process_bounded_parallelism:
  assumes "0 \<le> MaxParallelCmds opts"
    and "\<forall>t \<in> set (Tasks task). \<not> isStarted t \<and> \<not> isComplete t"
  shows "(let st = Process opts env task ct cache ex schedule in
           int (inFlight st) \<le> MaxParallelCmds opts
           \<and> (\<forall>k < length (tasks st). isStarted (tasks st ! k) \<longleftrightarrow> k < lastStartedTask st)
           \<and> (\<forall>m. irComplete m \<and> lastStartedTask st < length (tasks st) \<longrightarrow>
                  lastStartedTask (handleResult env m st) = lastStartedTask st + 1
                  \<and> isStarted (tasks (handleResult env m st) ! lastStartedTask st)))"
proof -
  have "schedInv opts (Process opts env task ct cache ex schedule)"
    using assms by (rule schedInv_Process)
  then show ?thesis
    unfolding Let_def schedInv_def
    using handleResult_launches_next [of _ "Process opts env task ct cache ex schedule" env]
    by auto
qed

text \<open>
  The three children of the example with parallelism 1, after the first child is complete
  and the second has sent its first record: one task is in flight and two are started.
\<close>

theorem Process_bounded_parallelism_witness:
  "0 \<le> MaxParallelCmds optionsS3
   \<and> map isStarted (Tasks groupS3) = [False, False, False]
   \<and> map isComplete (Tasks groupS3) = [False, False, False]
   \<and> inFlight (Process optionsS3 envS3 groupS3 0 Map.empty False [0, 0, 1]) = 1
   \<and> lastStartedTask (Process optionsS3 envS3 groupS3 0 Map.empty False [0, 0, 1]) = 2
   \<and> int (inFlight (Process optionsS3 envS3 groupS3 0 Map.empty False [0, 0, 1]))
        \<le> MaxParallelCmds optionsS3
   \<and> isStarted (tasks (Process optionsS3 envS3 groupS3 0 Map.empty False [0, 0, 1]) ! 1)
   \<and> \<not> isStarted (tasks (Process optionsS3 envS3 groupS3 0 Map.empty False [0, 0, 1]) ! 2)
   \<and> lastStartedTask
        (handleResult envS3
          \<lparr>irTask = 1, irStatus = StatusError, irStdout = [], irStderr = [],
           irComplete = True, irReturnCode = 1\<rparr>
          (Process optionsS3 envS3 groupS3 0 Map.empty False [0, 0, 1])) = 3
   \<and> isStarted (tasks
        (handleResult envS3
          \<lparr>irTask = 1, irStatus = StatusError, irStdout = [], irStderr = [],
           irComplete = True, irReturnCode = 1\<rparr>
          (Process optionsS3 envS3 groupS3 0 Map.empty False [0, 0, 1])) ! 2)"
proof -
  have h1: "0 \<le> MaxParallelCmds optionsS3"
    by (simp add: optionsS3_def)
  have t: "map isStarted (Tasks groupS3) = [False, False, False]"
    "map isComplete (Tasks groupS3) = [False, False, False]"
    by (simp_all add: groupS3_def groupOf_def leaf_def Tasks_def Task.extend_def Group.fields_def)
  have h2: "\<forall>t \<in> set (Tasks groupS3). \<not> isStarted t \<and> \<not> isComplete t"
    by (simp add: groupS3_def groupOf_def leaf_def Tasks_def Task.extend_def Group.fields_def)
  have e: "inFlight (Process optionsS3 envS3 groupS3 0 Map.empty False [0, 0, 1]) = 1"
    "lastStartedTask (Process optionsS3 envS3 groupS3 0 Map.empty False [0, 0, 1]) = 2"
    "length (tasks (Process optionsS3 envS3 groupS3 0 Map.empty False [0, 0, 1])) = 3"
    by (simp_all add: Process_def optionsS3_def envS3_def groupS3_def groupOf_def leaf_def
      exits_def initialSched_def Tasks_def Task.truncate_def Task.extend_def Group.fields_def
      startInitial.simps step_def launch_def handleResult_def run_def inFlight_def Let_def)
  note T = Process_bounded_parallelism [OF h1 h2, of envS3 0 Map.empty False "[0, 0, 1]",
      unfolded Let_def]
  have b: "int (inFlight (Process optionsS3 envS3 groupS3 0 Map.empty False [0, 0, 1]))
        \<le> MaxParallelCmds optionsS3"
    by (rule T [THEN conjunct1])
  have "\<forall>k<3. isStarted (tasks (Process optionsS3 envS3 groupS3 0 Map.empty False [0, 0, 1]) ! k)
      = (k < 2)"
    using T [THEN conjunct2, THEN conjunct1] unfolding e .
  then have s: "isStarted (tasks (Process optionsS3 envS3 groupS3 0 Map.empty False [0, 0, 1]) ! 1)"
    "\<not> isStarted (tasks (Process optionsS3 envS3 groupS3 0 Map.empty False [0, 0, 1]) ! 2)"
    by simp_all
  have "\<forall>m. irComplete m \<and> (2::nat) < 3 \<longrightarrow>
      lastStartedTask (handleResult envS3 m
          (Process optionsS3 envS3 groupS3 0 Map.empty False [0, 0, 1])) = 2 + 1
      \<and> isStarted (tasks (handleResult envS3 m
          (Process optionsS3 envS3 groupS3 0 Map.empty False [0, 0, 1])) ! 2)"
    using T [THEN conjunct2, THEN conjunct2] unfolding e .
  then have l: "lastStartedTask
        (handleResult envS3
          \<lparr>irTask = 1, irStatus = StatusError, irStdout = [], irStderr = [],
           irComplete = True, irReturnCode = 1\<rparr>
          (Process optionsS3 envS3 groupS3 0 Map.empty False [0, 0, 1])) = 3"
    "isStarted (tasks
        (handleResult envS3
          \<lparr>irTask = 1, irStatus = StatusError, irStdout = [], irStderr = [],
           irComplete = True, irReturnCode = 1\<rparr>
          (Process optionsS3 envS3 groupS3 0 Map.empty False [0, 0, 1])) ! 2)"
    by simp_all
  from h1 t e(1,2) b s l show ?thesis
    by (intro conjI)
qed

subsection \<open>Facts about inflation\<close>

lemma strings_Split_not_Nil: "strings_Split s sep \<noteq> []"
  by (induction s) (auto split: list.split)

lemma strings_Split_empty_first:
  "s = [] \<or> take 1 s = [sep] \<Longrightarrow> take 1 (strings_Split s sep) = [[]]"
  by (cases s) auto

lemmas inflation_defs =
  Create_def CreateChild_def inflate_def withTemplate_def yamlGroup_def yamlTask_def leaf_def
  optionsS3_def Task.extend_def Group.fields_def Let_def strings_Replace.simps

text \<open>
  Claim C6, as the code has it. \<^verbatim>\<open>inflate\<close> has no failure path: for every task, replica
  value and cache it returns the task, with the command split at single spaces as its
  argument vector and return code \<open>-1\<close>. When the command string after substitution is
  empty or begins with a space, the first element of the argument vector is the empty
  string, and the task is returned all the same.
\<close>

theorem inflate_never_fails:
  "\<exists>t. inflate opts cache displayIdx replicaValue task = Inr t
       \<and> Cmd (Command t) = strings_Split (CmdString t) (CHR '' '')
       \<and> Cmd (Command t) \<noteq> []
       \<and> ReturnCode (Command t) = -1
       \<and> (CmdString t = [] \<or> take 1 (CmdString t) = '' '' \<longrightarrow> take 1 (Cmd (Command t)) = [[]])"
proof -
  define cmdString where "cmdString = (if replicaValue \<noteq> []
       then strings_Replace (CmdString task) (ReplicaReplaceString opts) replicaValue
       else CmdString task)"
  obtain c0 args where s: "strings_Split cmdString (CHR '' '') = c0 # args"
    using strings_Split_not_Nil [of cmdString "CHR '' ''"] by (cases "strings_Split cmdString (CHR '' '')") auto
  have e: "take 1 (c0 # args) = [[]]" if "cmdString = [] \<or> take 1 cmdString = '' ''"
    using strings_Split_empty_first [OF that] s by simp
  show ?thesis
    using s e unfolding inflate_def Let_def cmdString_def [symmetric]
    by (auto simp del: take_Suc_Cons)
qed

text \<open>
  Claim C6 as stated fails: with the replica marker \<open>$V\<close> and a replica value of one space,
  the command \<open>$Vecho x\<close> becomes \<open>'' echo x''\<close>, whose argument vector starts with the empty
  string, and inflation succeeds with that vector.
\<close>

theorem inflate_empty_first_token_counterexample:
  "map_sum id (\<lambda>t. Cmd (Command t))
     (inflate optionsS3 Map.empty 0 '' '' (yamlTask [] ''$Vecho x'' []))
   = Inr [[], ''echo'', ''x'']"
  by (simp add: inflation_defs)

text \<open>The same task as an instance of the theorem.\<close>

theorem inflate_never_fails_witness:
  "\<exists>t. inflate optionsS3 Map.empty 0 '' '' (yamlTask [] ''$Vecho x'' []) = Inr t
       \<and> CmdString t = '' echo x''
       \<and> take 1 (CmdString t) = '' ''
       \<and> take 1 (Cmd (Command t)) = [[]]"
proof -
  obtain t where t: "inflate optionsS3 Map.empty 0 '' '' (yamlTask [] ''$Vecho x'' []) = Inr t"
    and i: "CmdString t = [] \<or> take 1 (CmdString t) = '' '' \<longrightarrow> take 1 (Cmd (Command t)) = [[]]"
    using inflate_never_fails [of optionsS3 Map.empty 0 "'' ''" "yamlTask [] ''$Vecho x'' []"]
    by blast
  have c: "CmdString t = '' echo x''"
    using t by (auto simp: inflation_defs)
  then have "take 1 (CmdString t) = '' ''" by simp
  with i c t show ?thesis by blast
qed

text \<open>
  Claim C5, at the failing input. A group whose children are a plain task and a task with
  for-each \<open>[x, y]\<close> inflates to three children with display indexes \<open>0, 0, 1\<close>: a replica
  gets its index within its own for-each list, the plain child its declared index. With
  the for-each task first the indexes are \<open>0, 1, 1\<close>, and both the last replica and the
  plain child carry the last-parallel template. (\<open>Create_forEach_only_example\<close> and
  \<open>Create_plain_children\<close> below show the two kinds of group where the indexes are the
  positions and only the last child carries the last-parallel template.)
\<close>

theorem Create_mixed_forEach_example:
  "map_sum id (\<lambda>(g, n). map (\<lambda>t. (Name t, Index (Display t), Template (Display t))) (ParallelTasks g))
     (Create optionsS3 Map.empty 0 []
        (yamlGroup ''g'' [yamlTask [] ''echo a'' [], yamlTask ''say $V'' ''echo $V'' [''x'', ''y'']]) 0)
   = Inr [(''echo a'', 0, lineParallelTemplate), (''say x'', 0, lineParallelTemplate),
          (''say y'', 1, lineLastParallelTemplate)]
   \<and> map_sum id (\<lambda>(g, n). map (\<lambda>t. (Name t, Index (Display t), Template (Display t))) (ParallelTasks g))
     (Create optionsS3 Map.empty 0 []
        (yamlGroup ''g'' [yamlTask ''say $V'' ''echo $V'' [''x'', ''y''], yamlTask [] ''echo a'' []]) 0)
   = Inr [(''say x'', 0, lineParallelTemplate), (''say y'', 1, lineLastParallelTemplate),
          (''echo a'', 1, lineLastParallelTemplate)]"
  by (simp add: inflation_defs)

lemma Create_forEach_only_example:
  "map_sum id (\<lambda>(g, n). map (\<lambda>t. (Name t, Cmd (Command t), Index (Display t), Template (Display t)))
      (ParallelTasks g))
     (Create optionsS3 Map.empty 0 []
        (yamlGroup ''g'' [yamlTask ''say $V'' ''echo $V'' [''x'', ''y'', ''z'']]) 0)
   = Inr [(''say x'', [''echo'', ''x''], 0, lineParallelTemplate),
          (''say y'', [''echo'', ''y''], 1, lineParallelTemplate),
          (''say z'', [''echo'', ''z''], 2, lineLastParallelTemplate)]"
  by (simp add: inflation_defs)


lemma inflate_Inr:
  "\<exists>t. inflate opts cache displayIdx replicaValue task = Inr t
       \<and> Index (Display t) = displayIdx"
proof -
  obtain c0 args where "strings_Split (if replicaValue \<noteq> []
       then strings_Replace (CmdString task) (ReplicaReplaceString opts) replicaValue
       else CmdString task) (CHR '' '') = c0 # args"
    using strings_Split_not_Nil by (meson list.exhaust)
  then show ?thesis
    unfolding inflate_def Let_def by auto
qed

lemma inflate_ParallelTasks:
  fixes task :: Group
  shows "inflate opts cache displayIdx replicaValue task = Inr t \<Longrightarrow>
    ParallelTasks t = ParallelTasks task"
  by (auto simp: inflate_def Let_def split: list.splits)

lemma childrenLoop_plain:
  assumes "\<forall>s \<in> set subs. ForEach s = []"
  shows "\<exists>fs tot2. childrenLoop opts cache rv n i subs tot = Inr (fs, tot2)
           \<and> length fs = length subs
           \<and> (\<forall>k < length subs.
                 Index (Display (fs ! k)) = int (i + k)
                 \<and> Template (Display (fs ! k)) =
                     (if int (i + k) = int n - 1 then lineLastParallelTemplate
                      else lineParallelTemplate))"
  using assms
proof (induction subs arbitrary: i tot)
  case Nil
  then show ?case by simp
next
  case (Cons s subs)
  obtain t where t: "inflate opts cache (int i) rv s = Inr t" and ti: "Index (Display t) = int i"
    using inflate_Inr [of opts cache "int i" rv s] by blast
  from Cons.prems have "\<forall>s \<in> set subs. ForEach s = []" and fs: "ForEach s = []"
    by simp_all
  from Cons.IH [OF this(1), of "i + 1" "tot + 1"]
  obtain rest tot2 where r: "childrenLoop opts cache rv n (i + 1) subs (tot + 1) = Inr (rest, tot2)"
    and lr: "length rest = length subs"
    and kr: "\<And>k. k < length subs \<Longrightarrow> Index (Display (rest ! k)) = int (i + 1 + k)
                 \<and> Template (Display (rest ! k)) =
                     (if int (i + 1 + k) = int n - 1 then lineLastParallelTemplate
                      else lineParallelTemplate)"
    by blast
  have e: "childrenLoop opts cache rv n i (s # subs) tot
      = Inr (withTemplate (int i = int n - 1) t # rest, tot2)"
    using t r fs by simp
  have "Index (Display ((withTemplate (int i = int n - 1) t # rest) ! k)) = int (i + k)
        \<and> Template (Display ((withTemplate (int i = int n - 1) t # rest) ! k)) =
            (if int (i + k) = int n - 1 then lineLastParallelTemplate else lineParallelTemplate)"
    if "k < length (s # subs)" for k
  proof (cases k)
    case 0
    then show ?thesis using ti by (simp add: withTemplate_def)
  next
    case (Suc j)
    then show ?thesis using kr [of j] that by simp
  qed
  with e lr show ?case by simp
qed

lemma Create_plain_children:
  assumes "\<forall>s \<in> set (ParallelTasks task). ForEach s = []"
  shows "\<exists>g tot2. Create opts cache displayStartIdx rv task tot = Inr (g, tot2)
           \<and> length (ParallelTasks g) = length (ParallelTasks task)
           \<and> map (\<lambda>t. Index (Display t)) (ParallelTasks g)
               = map int [0 ..< length (ParallelTasks task)]
           \<and> (\<forall>k < length (ParallelTasks task).
                 Template (Display (ParallelTasks g ! k)) =
                     (if k + 1 = length (ParallelTasks task) then lineLastParallelTemplate
                      else lineParallelTemplate))"
proof -
  obtain t where t: "inflate opts cache displayStartIdx rv task = Inr t"
    using inflate_Inr [of opts cache displayStartIdx rv task] by blast
  have p: "ParallelTasks t = ParallelTasks task"
    using t by (rule inflate_ParallelTasks)
  from childrenLoop_plain [OF assms, of opts cache rv "length (ParallelTasks task)" 0
      "if CmdString t \<noteq> [] then tot + 1 else tot"]
  obtain fs tot2 where c: "childrenLoop opts cache rv (length (ParallelTasks task)) 0
        (ParallelTasks task) (if CmdString t \<noteq> [] then tot + 1 else tot) = Inr (fs, tot2)"
    and l: "length fs = length (ParallelTasks task)"
    and k: "\<And>k. k < length (ParallelTasks task) \<Longrightarrow> Index (Display (fs ! k)) = int k
                 \<and> Template (Display (fs ! k)) =
                     (if int k = int (length (ParallelTasks task)) - 1
                      then lineLastParallelTemplate else lineParallelTemplate)"
    by auto
  have e: "Create opts cache displayStartIdx rv task tot = Inr (t\<lparr>ParallelTasks := fs\<rparr>, tot2)"
    using t c p by (simp add: Create_def)
  have i: "map (\<lambda>t. Index (Display t)) fs = map int [0 ..< length (ParallelTasks task)]"
    using l k by (intro nth_equalityI) simp_all
  have "Template (Display (fs ! k)) =
          (if k + 1 = length (ParallelTasks task) then lineLastParallelTemplate
           else lineParallelTemplate)" if "k < length (ParallelTasks task)" for k
    using k [OF that] that by (auto simp: algebra_simps)
  with e l i show ?thesis by simp
qed

subsection \<open>Facts about the line renderer\<close>

text \<open>
  Claim C8, as the code has it. Let the task's template show the split filler once, so that
  a filler of \<open>n\<close> spaces adds \<open>n\<close> cells to the line. Then the line \<^verbatim>\<open>String\<close> returns is as
  wide as the terminal or as the line without filler, whichever is more: exactly the
  terminal width when the line with the final message fits, wider when it does not. The
  message is the original one, or, when that is wider than the terminal width less the
  fixed part, its trim to that maximum minus 3 cells followed by \<open>...\<close>; the filler is
  \<open>max 0 (terminalWidth - rendered)\<close> spaces; at width zero the filler is empty.
\<close>

theorem String_visual_length:
  assumes split_once:
    "\<forall>v n. visualLength r (execute r (Template (Display task)) (v\<lparr>Split := replicate n (CHR '' '')\<rparr>))
           = visualLength r (execute r (Template (Display task)) (v\<lparr>Split := []\<rparr>)) + n"
  shows "(let line = fst (String r terminalWidth task);
              v = Values (Display (snd (String r terminalWidth task)));
              bare = execute r (Template (Display task)) (v\<lparr>Split := []\<rparr>);
              fixed = execute r (Template (Display task))
                        ((completedValues r task)\<lparr>Split := [], Msg := []\<rparr>);
              msg = Msg (completedValues r task);
              maxMessageWidth = sint terminalWidth - int (visualLength r fixed)
          in int (visualLength r line) = max (sint terminalWidth) (int (visualLength r bare))
             \<and> (int (visualLength r bare) \<le> sint terminalWidth \<longrightarrow>
                  int (visualLength r line) = sint terminalWidth)
             \<and> Msg v = (if int (visualLength r msg) > maxMessageWidth
                        then trimToVisualLength r msg (maxMessageWidth - 3) @ ''...''
                        else msg)
             \<and> Split v = replicate (nat (max 0 (sint terminalWidth - int (visualLength r bare))))
                            (CHR '' '')
             \<and> (terminalWidth = 0 \<longrightarrow> Split v = []))"
proof -
  define tmpl where "tmpl = Template (Display task)"
  define v1 where "v1 = completedValues r task"
  define mw where "mw = sint terminalWidth - int (visualLength r (execute r tmpl (v1\<lparr>Split := [], Msg := []\<rparr>)))"
  define v4 where "v4 = (if int (visualLength r (Msg v1)) > mw
                then v1\<lparr>Split := [], Msg := trimToVisualLength r (Msg v1) (mw - 3) @ ''...''\<rparr>
                else v1\<lparr>Split := []\<rparr>)"
  define sw where "sw = (if sint terminalWidth - int (visualLength r (execute r tmpl v4)) < 0 then 0
                        else sint terminalWidth - int (visualLength r (execute r tmpl v4)))"
  define v5 where "v5 = v4\<lparr>Split := replicate (nat sw) (CHR '' '')\<rparr>"
  have s4: "v4\<lparr>Split := []\<rparr> = v4"
    by (simp add: v4_def)
  have S: "String r terminalWidth task
      = (execute r tmpl v5,
         task\<lparr>Name := (if Name task = []
                  then (if length (CmdString task) > 25 then take 22 (CmdString task) @ ''...''
                        else CmdString task)
                  else Name task), Display := (Display task)\<lparr>Values := v5\<rparr>\<rparr>)"
    unfolding String_def Let_def v5_def sw_def v4_def mw_def v1_def tmpl_def
    by (simp cong: if_cong)
  have b: "v5\<lparr>Split := []\<rparr> = v4"
    by (simp add: v5_def s4)
  have l: "visualLength r (execute r tmpl v5) = visualLength r (execute r tmpl v4) + nat sw"
  proof -
    from split_once have "visualLength r (execute r tmpl (v4\<lparr>Split := replicate (nat sw) (CHR '' '')\<rparr>))
           = visualLength r (execute r tmpl (v4\<lparr>Split := []\<rparr>)) + nat sw"
      unfolding tmpl_def by blast
    then show ?thesis
      by (simp add: v5_def s4)
  qed
  have sw0: "sw = max 0 (sint terminalWidth - int (visualLength r (execute r tmpl v4)))"
    by (simp add: sw_def max_def)
  have sp: "Split v5 = replicate (nat sw) (CHR '' '')"
    by (simp add: v5_def)
  have c1: "int (visualLength r (execute r tmpl v5))
      = max (sint terminalWidth) (int (visualLength r (execute r tmpl v4)))"
    using l sw0 by (simp add: max_def)
  have c2: "int (visualLength r (execute r tmpl v4)) \<le> sint terminalWidth \<longrightarrow>
      int (visualLength r (execute r tmpl v5)) = sint terminalWidth"
    using c1 by simp
  have c3: "Msg v5 = (if int (visualLength r (Msg v1)) > mw
                        then trimToVisualLength r (Msg v1) (mw - 3) @ ''...'' else Msg v1)"
    by (simp add: v5_def v4_def)
  have c4: "Split v5 = replicate (nat (max 0 (sint terminalWidth
      - int (visualLength r (execute r tmpl v4))))) (CHR '' '')"
    using sp sw0 by simp
  have c5: "terminalWidth = 0 \<longrightarrow> Split v5 = []"
    using sp by (simp add: sw_def)
  have V: "Values (Display (snd (String r terminalWidth task))) = v5"
    and L: "fst (String r terminalWidth task) = execute r tmpl v5"
    by (simp_all add: S)
  show ?thesis
    unfolding Let_def V L
    unfolding tmpl_def [symmetric] v1_def [symmetric]
    unfolding mw_def [symmetric] b
    using c1 c2 c3 c4 c5 by blast
qed

text \<open>
  Claim C8 as stated fails: on a terminal 5 columns wide the line of a task titled
  \<open>compile\<close> is 17 cells wide, since the fixed part alone does not fit and a negative split
  width is set to zero.
\<close>

theorem String_line_wider_than_terminal_counterexample:
  "int (visualLength plainRenderer (fst (String plainRenderer 5 (lineOf ''compile'' ''ok'')))) = 17
   \<and> int (visualLength plainRenderer (fst (String plainRenderer 5 (lineOf ''compile'' ''ok''))))
       \<noteq> sint (5 :: 64 word)"
  by (simp add: String_def plainRenderer_def lineOf_def leaf_def completedValues_def Let_def)

text \<open>
  The plain renderer shows the filler once; on a terminal 30 columns wide a long message is
  trimmed and a short one is padded, both to 30 cells; at width zero the filler is empty.
\<close>

theorem String_visual_length_witness:
  "(\<forall>v n. visualLength plainRenderer
             (execute plainRenderer lineDefaultTemplate (v\<lparr>Split := replicate n (CHR '' '')\<rparr>))
           = visualLength plainRenderer (execute plainRenderer lineDefaultTemplate (v\<lparr>Split := []\<rparr>)) + n)
   \<and> fst (String plainRenderer 30 (lineOf ''compile'' ''a very long message that does not fit''))
       = ''  compile a very long m...[1s]''
   \<and> int (visualLength plainRenderer
        (fst (String plainRenderer 30 (lineOf ''compile'' ''a very long message that does not fit''))))
       = sint (30 :: 64 word)
   \<and> fst (String plainRenderer 30 (lineOf ''compile'' ''ok'')) = ''  compile ok              [1s]''
   \<and> int (visualLength plainRenderer (fst (String plainRenderer 30 (lineOf ''compile'' ''ok''))))
       = sint (30 :: 64 word)
   \<and> Split (Values (Display (snd (String plainRenderer 0 (lineOf ''compile'' ''ok''))))) = []"
proof -
  have t: "Template (Display (lineOf title msg)) = lineDefaultTemplate" for title msg
    by (simp add: lineOf_def)
  have h: "\<forall>v n. visualLength plainRenderer
             (execute plainRenderer lineDefaultTemplate (v\<lparr>Split := replicate n (CHR '' '')\<rparr>))
           = visualLength plainRenderer (execute plainRenderer lineDefaultTemplate (v\<lparr>Split := []\<rparr>)) + n"
    by (simp add: plainRenderer_def)
  note T = String_visual_length [of plainRenderer "lineOf title msg" for title msg, unfolded t, OF h,
      unfolded Let_def]
  have e1: "fst (String plainRenderer 30 (lineOf ''compile'' ''a very long message that does not fit''))
       = ''  compile a very long m...[1s]''"
    and e2: "fst (String plainRenderer 30 (lineOf ''compile'' ''ok'')) = ''  compile ok              [1s]''"
    by (simp_all add: String_def plainRenderer_def lineOf_def leaf_def completedValues_def Let_def
        eval_nat_numeral)
  have b1: "int (visualLength plainRenderer (execute plainRenderer lineDefaultTemplate
        ((Values (Display (snd (String plainRenderer 30
             (lineOf ''compile'' ''a very long message that does not fit'')))))\<lparr>Split := []\<rparr>)))
       \<le> sint (30 :: 64 word)"
    and b2: "int (visualLength plainRenderer (execute plainRenderer lineDefaultTemplate
        ((Values (Display (snd (String plainRenderer 30 (lineOf ''compile'' ''ok'')))))\<lparr>Split := []\<rparr>)))
       \<le> sint (30 :: 64 word)"
    by (simp_all add: String_def plainRenderer_def lineOf_def leaf_def completedValues_def Let_def)
  have w1: "int (visualLength plainRenderer
        (fst (String plainRenderer 30 (lineOf ''compile'' ''a very long message that does not fit''))))
       = sint (30 :: 64 word)"
    using T [of 30 "''compile''" "''a very long message that does not fit''"] b1 by blast
  have w2: "int (visualLength plainRenderer (fst (String plainRenderer 30 (lineOf ''compile'' ''ok''))))
       = sint (30 :: 64 word)"
    using T [of 30 "''compile''" "''ok''"] b2 by blast
  have w3: "Split (Values (Display (snd (String plainRenderer 0 (lineOf ''compile'' ''ok''))))) = []"
    using T [of 0 "''compile''" "''ok''"] by blast
  from h e1 w1 e2 w2 w3 show ?thesis
    by (intro conjI)
qed

end
